theory Spec2Isabelle
  imports Main "HOL-Library.AList"
begin

section \<open>Strings as the runtime sees them\<close>

text \<open>
  Strings are lists of 8-bit characters.  \<open>String.prototype.trim\<close> and the regular
  expression class \<open>\s\<close> remove the same white space; of it, the tab, line feed,
  vertical tab, form feed, carriage return, space and no-break space fall inside the
  character range of the model.
\<close>

definition is_space :: "char \<Rightarrow> bool" where
  "is_space c = (of_char c \<in> {9, 10, 11, 12, 13, 32, 160 :: nat})"

definition trim :: "string \<Rightarrow> string" where
  "trim s = rev (dropWhile is_space (rev (dropWhile is_space s)))"

text \<open>\<open>s.split(c)\<close> for a one-character separator: never returns the empty array.\<close>

fun split_on :: "char \<Rightarrow> string \<Rightarrow> string list" where
  "split_on c [] = [[]]"
| "split_on c (x # xs) =
     (if x = c then [] # split_on c xs
      else (case split_on c xs of
              [] \<Rightarrow> [[x]]
            | piece # pieces \<Rightarrow> (x # piece) # pieces))"

text \<open>\<open>parts.join(sep)\<close>.\<close>

fun joinWith :: "string \<Rightarrow> string list \<Rightarrow> string" where
  "joinWith sep [] = []"
| "joinWith sep [x] = x"
| "joinWith sep (x # y # ys) = x @ sep @ joinWith sep (y # ys)"

text \<open>Decimal rendering of a number inside a template literal.\<close>

fun string_of_nat :: "nat \<Rightarrow> string" where
  "string_of_nat n =
     (if n < 10 then [''0123456789'' ! n]
      else string_of_nat (n div 10) @ [''0123456789'' ! (n mod 10)])"

declare string_of_nat.simps [simp del]

text \<open>The double quote, which the messages of the wizard put around segment ids.\<close>

definition dq :: string where
  "dq = [CHR 0x22]"

section \<open>Data model\<close>

text \<open>
  Values read back from an answer file are what \<open>JSON.parse\<close> returns.  The numeric
  payload of a number is never inspected by the code below.
\<close>

datatype json =
    JNull
  | JBool bool
  | JNum int
  | JStr string
  | JArr "json list"
  | JObj "(string \<times> json) list"

text \<open>
  A \<open>Record<string, T>\<close> is the association list of its own properties, each key once;
  \<open>r[k]\<close> is \<open>map_of r k\<close> for the keys that are read here: the fixed keys of an
  answer file, none of which names a member of \<open>Object.prototype\<close>, and declared
  segment ids.  A metadata record is also read under the id of a selection; there an
  inherited member, having neither a string \<open>label\<close> nor \<open>details\<close>, changes as
  little as no entry.
\<close>

type_synonym details = "(string \<times> json) list"

datatype source = SourceOption | SourceCustom | SourceCli

record IdentityOption =
  opt_value :: string
  opt_label :: "string option"
  opt_hint :: "string option"

text \<open>
  The overrides and the defaults of a run are plain objects, read with \<open>record[id]\<close>
  under a declared segment id.  For an id that names a member of \<open>Object.prototype\<close>
  such a read finds the inherited member, a value that is not a string, where the object
  has no own property of that name.  What the wizard does with such a value is outside
  this development: a declared segment id is a string other than these names.
\<close>

definition objectPrototypeMembers :: "string list" where
  "objectPrototypeMembers =
     [''constructor'', ''__defineGetter__'', ''__defineSetter__'', ''hasOwnProperty'',
      ''__lookupGetter__'', ''__lookupSetter__'', ''isPrototypeOf'',
      ''propertyIsEnumerable'', ''toString'', ''valueOf'', ''__proto__'',
      ''toLocaleString'']"

typedef segid = "{s :: string. s \<notin> set objectPrototypeMembers}"
  morphisms id_text SegId
  by (rule exI[of _ "[]"]) (simp add: objectPrototypeMembers_def)

record IdentitySegmentSpec =
  seg_key :: segid
  seg_prompt :: string
  seg_options :: "IdentityOption list option"
  seg_allowCustom :: bool
  seg_defaultValue :: "string option"
  seg_placeholder :: "string option"

text \<open>\<open>segment.id\<close>, as the string it is.\<close>

definition seg_id :: "IdentitySegmentSpec \<Rightarrow> string" where
  "seg_id segment = id_text (seg_key segment)"

record IdentitySegmentMetadata =
  md_label :: "string option"
  md_details :: "details option"

record WizardIdentitySegmentSelection =
  sel_id :: string
  sel_value :: string
  sel_label :: string
  sel_source :: source
  sel_details :: "details option"

record WizardIdentitySelection =
  slug :: string
  segments :: "WizardIdentitySegmentSelection list"

text \<open>
  Every failure of the wizard is a plain \<open>Error\<close> carrying a message, except the two
  cancellation classes.  \<open>AwaitingInput\<close> is not thrown by the code: it is the outcome of
  a run whose prompt has been shown and has not been answered (the scripted responses
  are used up).
\<close>

datatype error =
    Error string
  | IdentityPromptCancelledError
  | PersistedAnswersStrategyCancelledError
  | AwaitingInput

record IdentityResolution =
  selection :: "WizardIdentitySelection option"
  missingSegmentIds :: "string list"

text \<open>Optional records: \<open>provided?.[id]\<close>.\<close>

definition lookupOpt :: "(string \<times> 'v) list option \<Rightarrow> string \<Rightarrow> 'v option" where
  "lookupOpt r k = (case r of None \<Rightarrow> None | Some kvs \<Rightarrow> map_of kvs k)"

text \<open>A string used as a condition is true when it is present and not empty.\<close>

definition truthy :: "string option \<Rightarrow> bool" where
  "truthy v = (case v of None \<Rightarrow> False | Some s \<Rightarrow> s \<noteq> [])"

section \<open>Building one segment selection\<close>

definition findOption :: "IdentitySegmentSpec \<Rightarrow> string \<Rightarrow> IdentityOption option" where
  "findOption segment v =
     (case seg_options segment of
        None \<Rightarrow> None
      | Some opts \<Rightarrow> find (\<lambda>candidate. opt_value candidate = v) opts)"

definition invalidCustomValueMessage :: "IdentitySegmentSpec \<Rightarrow> string" where
  "invalidCustomValueMessage segment =
     ''Identity segment '' @ dq @ seg_id segment @ dq @
     '' does not allow custom values. Valid options: '' @
     (case seg_options segment of
        None \<Rightarrow> ''n/a''
      | Some opts \<Rightarrow> joinWith '', '' (map opt_value opts)) @ ''.''"

definition withMetadata ::
  "IdentitySegmentMetadata option \<Rightarrow> WizardIdentitySegmentSelection \<Rightarrow>
   WizardIdentitySegmentSelection" where
  "withMetadata metadataOverride sel =
     (case metadataOverride of
        None \<Rightarrow> sel
      | Some md \<Rightarrow>
          (let s1 = (case md_label md of None \<Rightarrow> sel | Some l \<Rightarrow> sel\<lparr>sel_label := l\<rparr>)
           in (case md_details md of None \<Rightarrow> s1 | Some d \<Rightarrow> s1\<lparr>sel_details := Some d\<rparr>)))"

definition buildWizardIdentitySegmentSelection ::
  "IdentitySegmentSpec \<Rightarrow> string \<Rightarrow> source \<Rightarrow> IdentitySegmentMetadata option \<Rightarrow> bool \<Rightarrow>
   error + WizardIdentitySegmentSelection" where
  "buildWizardIdentitySegmentSelection segment v src metadataOverride acceptUnlistedValues =
     (case findOption segment v of
        Some opt \<Rightarrow>
          Inr (withMetadata metadataOverride
            \<lparr>sel_id = seg_id segment, sel_value = opt_value opt,
             sel_label = (case opt_label opt of Some l \<Rightarrow> l | None \<Rightarrow> opt_value opt),
             sel_source = src, sel_details = None\<rparr>)
      | None \<Rightarrow>
          if seg_allowCustom segment \<or> acceptUnlistedValues then
            Inr (withMetadata metadataOverride
              \<lparr>sel_id = seg_id segment, sel_value = v, sel_label = v,
               sel_source = src, sel_details = None\<rparr>)
          else Inl (Error (invalidCustomValueMessage segment)))"

definition applyIdentityMetadataOverrides ::
  "WizardIdentitySelection \<Rightarrow> (string \<times> IdentitySegmentMetadata) list option \<Rightarrow>
   WizardIdentitySelection" where
  "applyIdentityMetadataOverrides sel metadataOverrides =
     (case metadataOverrides of
        None \<Rightarrow> sel
      | Some mds \<Rightarrow>
          \<lparr>slug = slug sel,
           segments = map (\<lambda>segment. withMetadata (map_of mds (sel_id segment)) segment)
                        (segments sel)\<rparr>)"

section \<open>Building a selection from overrides and a fallback\<close>

text \<open>\<open>fallbackMap\<close>: a later entry with the same id replaces an earlier one.\<close>

definition fallbackMapOf ::
  "WizardIdentitySelection option \<Rightarrow> string \<Rightarrow> WizardIdentitySegmentSelection option" where
  "fallbackMapOf fallback =
     (case fallback of
        None \<Rightarrow> Map.empty
      | Some fb \<Rightarrow> fold (\<lambda>entry m. m(sel_id entry \<mapsto> entry)) (segments fb) Map.empty)"

fun buildLoop ::
  "(string \<Rightarrow> WizardIdentitySegmentSelection option) \<Rightarrow> (string \<times> string) list option \<Rightarrow>
   (string \<times> IdentitySegmentMetadata) list option \<Rightarrow> IdentitySegmentSpec list \<Rightarrow>
   WizardIdentitySegmentSelection list \<Rightarrow> string list \<Rightarrow>
   error + (WizardIdentitySegmentSelection list \<times> string list)" where
  "buildLoop fallbackMap provided providedMetadata [] selections missing =
     Inr (selections, missing)"
| "buildLoop fallbackMap provided providedMetadata (segment # rest) selections missing =
     (if truthy (lookupOpt provided (seg_id segment)) then
        (case buildWizardIdentitySegmentSelection segment
                (the (lookupOpt provided (seg_id segment))) SourceCli
                (lookupOpt providedMetadata (seg_id segment)) False of
           Inl e \<Rightarrow> Inl e
         | Inr s \<Rightarrow>
             buildLoop fallbackMap provided providedMetadata rest (selections @ [s]) missing)
      else
        (case fallbackMap (seg_id segment) of
           Some fallbackEntry \<Rightarrow>
             buildLoop fallbackMap provided providedMetadata rest
               (selections @ [fallbackEntry]) missing
         | None \<Rightarrow>
             buildLoop fallbackMap provided providedMetadata rest selections
               (missing @ [seg_id segment])))"

definition buildIdentitySelectionFromSources ::
  "IdentitySegmentSpec list \<Rightarrow> (string \<times> string) list option \<Rightarrow>
   (string \<times> IdentitySegmentMetadata) list option \<Rightarrow> WizardIdentitySelection option \<Rightarrow>
   error + IdentityResolution" where
  "buildIdentitySelectionFromSources segs provided providedMetadata fallback =
     (case buildLoop (fallbackMapOf fallback) provided providedMetadata segs [] [] of
        Inl e \<Rightarrow> Inl e
      | Inr (selections, missing) \<Rightarrow>
          if missing = [] then
            Inr \<lparr>selection =
                   Some \<lparr>slug = joinWith ''/'' (map sel_value selections),
                         segments = selections\<rparr>,
                 missingSegmentIds = []\<rparr>
          else Inr \<lparr>selection = None, missingSegmentIds = missing\<rparr>)"

section \<open>Parsing an explicit slug\<close>

text \<open>\<open>xs.map(f)\<close> where \<open>f\<close> may throw: the first failure aborts the whole map.\<close>

fun sequenceSum :: "(error + 'a) list \<Rightarrow> error + 'a list" where
  "sequenceSum [] = Inr []"
| "sequenceSum (r # rs) =
     (case r of
        Inl e \<Rightarrow> Inl e
      | Inr v \<Rightarrow> (case sequenceSum rs of Inl e \<Rightarrow> Inl e | Inr vs \<Rightarrow> Inr (v # vs)))"

definition slugParts :: "string \<Rightarrow> string list" where
  "slugParts s = filter (\<lambda>segment. length segment > 0) (map trim (split_on CHR ''/'' s))"

definition segmentCountMessage :: "nat \<Rightarrow> nat \<Rightarrow> string" where
  "segmentCountMessage expected received =
     ''--answers-identity requires '' @ string_of_nat expected @
     '' segment(s) but received '' @ string_of_nat received @ ''.''"

definition parseIdentitySlug ::
  "string \<Rightarrow> IdentitySegmentSpec list \<Rightarrow> error + WizardIdentitySelection" where
  "parseIdentitySlug s segs =
     (let parts = slugParts s in
      if length parts \<noteq> length segs then
        Inl (Error (segmentCountMessage (length segs) (length parts)))
      else
        (case sequenceSum
                (map (\<lambda>(segment, v).
                        buildWizardIdentitySegmentSelection segment v SourceCli None True)
                     (zip segs parts)) of
           Inl e \<Rightarrow> Inl e
         | Inr selections \<Rightarrow>
             Inr \<lparr>slug = joinWith ''/'' (map sel_value selections),
                  segments = selections\<rparr>))"

section \<open>Default templates\<close>

text \<open>
  The pattern \<open>{{\s*([\w-]+)\s*}}\<close>.  White space, identifier characters and the brace
  are disjoint classes, so the greedy reading below is the only way the pattern can
  match at a position.
\<close>

definition is_ident_char :: "char \<Rightarrow> bool" where
  "is_ident_char c =
     (let n = (of_char c :: nat) in
      (48 \<le> n \<and> n \<le> 57) \<or> (65 \<le> n \<and> n \<le> 90) \<or> (97 \<le> n \<and> n \<le> 122) \<or>
      n = 95 \<or> n = 45)"

text \<open>A match at the head of the text: the captured id and the text after the match.\<close>

definition matchPlaceholder :: "string \<Rightarrow> (string \<times> string) option" where
  "matchPlaceholder s =
     (case s of
        a # b # r \<Rightarrow>
          if a = CHR ''{'' \<and> b = CHR ''{'' then
            (let r1 = dropWhile is_space r;
                 ident = takeWhile is_ident_char r1;
                 r2 = dropWhile is_space (dropWhile is_ident_char r1)
             in if ident = [] then None
                else (case r2 of
                        c # d # rest \<Rightarrow>
                          if c = CHR ''}'' \<and> d = CHR ''}'' then Some (ident, rest) else None
                      | _ \<Rightarrow> None))
          else None
      | _ \<Rightarrow> None)"

text \<open>
  \<open>template.replace(/.../g, f)\<close>: matches are looked for from left to right, and the
  scan resumes after each match.
\<close>

function replacePlaceholders :: "(string \<Rightarrow> string) \<Rightarrow> string \<Rightarrow> string" where
  "replacePlaceholders f [] = []"
| "replacePlaceholders f (c # cs) =
     (case matchPlaceholder (c # cs) of
        Some (ident, rest) \<Rightarrow> f ident @ replacePlaceholders f rest
      | None \<Rightarrow> c # replacePlaceholders f cs)"
  by pat_completeness auto
termination
proof (relation "measure (\<lambda>(f, s). length s)", goal_cases)
  case 1
  show ?case by simp
next
  case (2 f c cs)
  show ?case by simp
next
  case (3 f c cs x2 ident rest)
  from 3(1) obtain r where r: "c # cs = CHR ''{'' # CHR ''{'' # r"
    and rest: "dropWhile is_space (dropWhile is_ident_char (dropWhile is_space r))
                 = CHR ''}'' # CHR ''}'' # snd x2"
    by (auto simp: matchPlaceholder_def Let_def split: list.splits if_splits)
  have "length (dropWhile is_space (dropWhile is_ident_char (dropWhile is_space r)))
          \<le> length r"
    by (meson length_dropWhile_le le_trans)
  with rest r 3(2) show ?case by auto
qed

definition renderIdentityDefaultTemplate ::
  "string \<Rightarrow> (string \<Rightarrow> WizardIdentitySegmentSelection option) \<Rightarrow> string option" where
  "renderIdentityDefaultTemplate template selectionMap =
     (if template = [] then None
      else
        (let rendered =
               replacePlaceholders
                 (\<lambda>segmentId. case selectionMap segmentId of
                                 Some sel \<Rightarrow> sel_value sel
                               | None \<Rightarrow> [])
                 template;
             trimmed = trim rendered
         in if length trimmed > 0 then Some trimmed else None))"

section \<open>The prompt surface\<close>

text \<open>
  A prompt either returns the operator's answer or the cancel symbol.  A run is given
  the responses the operator will type, in order, and records every prompt it shows.
  Every choice offered by a select prompt here has a string value, so the answer of a
  select is a string and the check for a non-string selection has no branch below; the
  answer itself may be any string.
\<close>

datatype response = Cancel | Answer string

record PromptOption =
  po_value :: string
  po_label :: string
  po_hint :: "string option"

datatype request =
    Select string "PromptOption list"
  | Text string "string option" "string option"

type_synonym io = "response list \<times> request list"

definition ask :: "request \<Rightarrow> io \<Rightarrow> response option \<times> io" where
  "ask req st =
     (case fst st of
        [] \<Rightarrow> (None, ([], snd st @ [req]))
      | r # rs \<Rightarrow> (Some r, (rs, snd st @ [req])))"

section \<open>Prompting for segments\<close>

text \<open>The \<open>initialValue\<close> handed to the free-text prompt.\<close>

definition customInitialValue ::
  "IdentitySegmentSpec \<Rightarrow> (string \<Rightarrow> WizardIdentitySegmentSelection option) \<Rightarrow>
   string option \<Rightarrow> string option" where
  "customInitialValue segment selectionMap initialValueOverride =
     (if truthy initialValueOverride then initialValueOverride
      else if truthy (seg_defaultValue segment) then
        renderIdentityDefaultTemplate (the (seg_defaultValue segment)) selectionMap
      else None)"

definition requiresValueMessage :: "IdentitySegmentSpec \<Rightarrow> string" where
  "requiresValueMessage segment =
     ''Identity segment '' @ dq @ seg_id segment @ dq @ '' requires a value.''"

definition promptForCustomIdentityValue ::
  "IdentitySegmentSpec \<Rightarrow> (string \<Rightarrow> WizardIdentitySegmentSelection option) \<Rightarrow>
   string option \<Rightarrow> io \<Rightarrow> (error + string) \<times> io" where
  "promptForCustomIdentityValue segment selectionMap initialValueOverride st =
     (case ask (Text (seg_prompt segment) (seg_placeholder segment)
                  (customInitialValue segment selectionMap initialValueOverride)) st of
        (None, st') \<Rightarrow> (Inl AwaitingInput, st')
      | (Some Cancel, st') \<Rightarrow> (Inl IdentityPromptCancelledError, st')
      | (Some (Answer resp), st') \<Rightarrow>
          if length (trim resp) = 0 then (Inl (Error (requiresValueMessage segment)), st')
          else (Inr (trim resp), st'))"

definition customChoice :: PromptOption where
  "customChoice =
     \<lparr>po_value = ''__custom__'', po_label = ''Custom value'',
      po_hint = Some ''Enter a custom value''\<rparr>"

definition savedChoice :: "string \<Rightarrow> PromptOption" where
  "savedChoice defaultValue =
     \<lparr>po_value = ''__saved__'', po_label = defaultValue, po_hint = Some ''Saved value''\<rparr>"

text \<open>The choices of the select prompt of a segment that declares options.\<close>

definition segmentChoices ::
  "IdentitySegmentSpec \<Rightarrow> IdentityOption list \<Rightarrow> string option \<Rightarrow> PromptOption list" where
  "segmentChoices segment opts defaultValue =
     (let options0 =
            map (\<lambda>opt. \<lparr>po_value = opt_value opt,
                         po_label = (case opt_label opt of Some l \<Rightarrow> l | None \<Rightarrow> opt_value opt),
                         po_hint = opt_hint opt\<rparr>) opts;
          options1 = (if seg_allowCustom segment then options0 @ [customChoice] else options0)
      in if truthy defaultValue then
           (case find (\<lambda>opt. po_value opt = the defaultValue) options1 of
              Some existing \<Rightarrow> existing # remove1 existing options1
            | None \<Rightarrow>
                if seg_allowCustom segment then savedChoice (the defaultValue) # options1
                else options1)
         else options1)"

definition mustDefineOptionsMessage :: "IdentitySegmentSpec \<Rightarrow> string" where
  "mustDefineOptionsMessage segment =
     ''Identity segment '' @ dq @ seg_id segment @ dq @
     '' must define options or set allowCustom: true.''"

definition promptForIdentitySegment ::
  "IdentitySegmentSpec \<Rightarrow> (string \<Rightarrow> WizardIdentitySegmentSelection option) \<Rightarrow>
   IdentitySegmentMetadata option \<Rightarrow> string option \<Rightarrow> io \<Rightarrow>
   (error + WizardIdentitySegmentSelection) \<times> io" where
  "promptForIdentitySegment segment selectionMap metadataOverride defaultValue st =
     (if seg_options segment \<noteq> None \<and> length (the (seg_options segment)) > 0 then
        (case ask (Select (seg_prompt segment)
                     (segmentChoices segment (the (seg_options segment)) defaultValue)) st of
           (None, st') \<Rightarrow> (Inl AwaitingInput, st')
         | (Some Cancel, st') \<Rightarrow> (Inl IdentityPromptCancelledError, st')
         | (Some (Answer choice), st') \<Rightarrow>
             if choice = ''__saved__'' then
               (buildWizardIdentitySegmentSelection segment
                  (case defaultValue of Some d \<Rightarrow> d | None \<Rightarrow> []) SourceCli
                  metadataOverride True, st')
             else if choice = ''__custom__'' then
               (case promptForCustomIdentityValue segment selectionMap defaultValue st' of
                  (Inl e, st'') \<Rightarrow> (Inl e, st'')
                | (Inr customValue, st'') \<Rightarrow>
                    (buildWizardIdentitySegmentSelection segment customValue SourceCustom
                       metadataOverride False, st''))
             else
               (buildWizardIdentitySegmentSelection segment choice
                  (if findOption segment choice \<noteq> None then SourceOption else SourceCli)
                  metadataOverride False, st'))
      else if \<not> seg_allowCustom segment then
        (Inl (Error (mustDefineOptionsMessage segment)), st)
      else
        (case promptForCustomIdentityValue segment selectionMap defaultValue st of
           (Inl e, st') \<Rightarrow> (Inl e, st')
         | (Inr customValue, st') \<Rightarrow>
             (buildWizardIdentitySegmentSelection segment customValue SourceCustom
                metadataOverride False, st')))"

text \<open>
  The loop of \<open>promptForIdentitySegments\<close>, with the selections made so far and the map
  of the siblings already resolved.
\<close>

fun promptLoop ::
  "IdentitySegmentSpec list \<Rightarrow> (string \<times> string) list option \<Rightarrow>
   (string \<times> IdentitySegmentMetadata) list option \<Rightarrow> (string \<times> string) list option \<Rightarrow>
   WizardIdentitySegmentSelection list \<Rightarrow>
   (string \<Rightarrow> WizardIdentitySegmentSelection option) \<Rightarrow> io \<Rightarrow>
   (error + WizardIdentitySegmentSelection list) \<times> io" where
  "promptLoop [] provided metadataOverrides defaults selections selectionMap st =
     (Inr selections, st)"
| "promptLoop (segment # rest) provided metadataOverrides defaults selections selectionMap st =
     (if truthy (lookupOpt provided (seg_id segment)) then
        (case buildWizardIdentitySegmentSelection segment
                (the (lookupOpt provided (seg_id segment))) SourceCli
                (lookupOpt metadataOverrides (seg_id segment)) False of
           Inl e \<Rightarrow> (Inl e, st)
         | Inr s \<Rightarrow>
             promptLoop rest provided metadataOverrides defaults (selections @ [s])
               (selectionMap(seg_id segment \<mapsto> s)) st)
      else
        (case promptForIdentitySegment segment selectionMap
                (lookupOpt metadataOverrides (seg_id segment))
                (lookupOpt defaults (seg_id segment)) st of
           (Inl e, st') \<Rightarrow> (Inl e, st')
         | (Inr s, st') \<Rightarrow>
             promptLoop rest provided metadataOverrides defaults (selections @ [s])
               (selectionMap(seg_id segment \<mapsto> s)) st'))"

definition promptForIdentitySegments ::
  "IdentitySegmentSpec list \<Rightarrow> (string \<times> string) list option \<Rightarrow>
   (string \<times> IdentitySegmentMetadata) list option \<Rightarrow> (string \<times> string) list option \<Rightarrow>
   io \<Rightarrow> (error + WizardIdentitySelection) \<times> io" where
  "promptForIdentitySegments segs provided metadataOverrides defaults st =
     (case promptLoop segs provided metadataOverrides defaults [] Map.empty st of
        (Inl e, st') \<Rightarrow> (Inl e, st')
      | (Inr selections, st') \<Rightarrow>
          (Inr \<lparr>slug = joinWith ''/'' (map sel_value selections), segments = selections\<rparr>,
           st'))"

text \<open>
  \<open>defaults[segment.id] = segment.value\<close> on a fresh plain object: under the id
  \<open>__proto__\<close> the string is dropped by the setter.
\<close>

definition toIdentitySegmentDefaults :: "WizardIdentitySelection \<Rightarrow> (string \<times> string) list" where
  "toIdentitySegmentDefaults sel =
     fold (\<lambda>segment defaults.
             if sel_id segment = [] \<or> sel_value segment = [] then defaults
             else if sel_id segment = ''__proto__'' then defaults
             else AList.update (sel_id segment) (sel_value segment) defaults)
          (segments sel) []"

definition existingIdentityChoices :: "WizardIdentitySelection list \<Rightarrow> PromptOption list" where
  "existingIdentityChoices existing =
     map (\<lambda>sel. \<lparr>po_value = slug sel, po_label = slug sel,
                  po_hint = Some (joinWith '', ''
                    (map (\<lambda>segment. sel_id segment @ ''='' @ sel_value segment)
                         (segments sel)))\<rparr>) existing
     @ [\<lparr>po_value = ''__new__'', po_label = ''Create a new identity'',
         po_hint = Some ''Answer the identity prompts before continuing.''\<rparr>]"

text \<open>
  The \<open>while (true)\<close> of \<open>promptForExistingIdentitySelection\<close> shows the same select
  again after an answer that is neither \<open>__new__\<close> nor an existing slug; each round
  takes one response.
\<close>

fun promptForExistingIdentitySelection ::
  "WizardIdentitySelection list \<Rightarrow> IdentitySegmentSpec list \<Rightarrow>
   (string \<times> IdentitySegmentMetadata) list option \<Rightarrow> response list \<Rightarrow> request list \<Rightarrow>
   (error + WizardIdentitySelection) \<times> io" where
  "promptForExistingIdentitySelection existing segs metadataOverrides [] asked =
     (Inl AwaitingInput,
      ([], asked @ [Select ''Select an existing answers identity (or create a new one):''
                      (existingIdentityChoices existing)]))"
| "promptForExistingIdentitySelection existing segs metadataOverrides (r # rs) asked =
     (let asked' = asked @ [Select ''Select an existing answers identity (or create a new one):''
                              (existingIdentityChoices existing)]
      in case r of
           Cancel \<Rightarrow> (Inl IdentityPromptCancelledError, (rs, asked'))
         | Answer resp \<Rightarrow>
             if resp = ''__new__'' then
               promptForIdentitySegments segs None metadataOverrides None (rs, asked')
             else
               (case find (\<lambda>entry. slug entry = resp) existing of
                  Some selected \<Rightarrow>
                    promptForIdentitySegments segs None metadataOverrides
                      (Some (toIdentitySegmentDefaults selected)) (rs, asked')
                | None \<Rightarrow>
                    promptForExistingIdentitySelection existing segs metadataOverrides rs asked'))"

datatype strategy = Reuse | Review | Reset

text \<open>The file path is shown in cyan; the colour codes are left out of the message.\<close>

definition strategyRequest :: "string \<Rightarrow> request" where
  "strategyRequest filePath =
     Select (''Saved answers file '' @ filePath @
             '' already exists. How should Dev Wizard proceed?'')
       [\<lparr>po_value = ''reuse'', po_label = ''Reuse saved answers'',
         po_hint = Some ''Skip prompts and keep the existing values for this run.''\<rparr>,
        \<lparr>po_value = ''review'', po_label = ''Review and update answers'',
         po_hint = Some ''Use saved answers as defaults, but run every prompt again.''\<rparr>,
        \<lparr>po_value = ''reset'', po_label = ''Start from scratch'',
         po_hint = Some ''Clear saved answers before prompting and capture new values.''\<rparr>]"

fun promptForPersistedAnswersStrategy ::
  "string \<Rightarrow> response list \<Rightarrow> request list \<Rightarrow> (error + strategy) \<times> io" where
  "promptForPersistedAnswersStrategy filePath [] asked =
     (Inl AwaitingInput, ([], asked @ [strategyRequest filePath]))"
| "promptForPersistedAnswersStrategy filePath (r # rs) asked =
     (case r of
        Cancel \<Rightarrow>
          (Inl PersistedAnswersStrategyCancelledError, (rs, asked @ [strategyRequest filePath]))
      | Answer resp \<Rightarrow>
          if resp = ''reuse'' then (Inr Reuse, (rs, asked @ [strategyRequest filePath]))
          else if resp = ''review'' then (Inr Review, (rs, asked @ [strategyRequest filePath]))
          else if resp = ''reset'' then (Inr Reset, (rs, asked @ [strategyRequest filePath]))
          else promptForPersistedAnswersStrategy filePath rs (asked @ [strategyRequest filePath]))"

section \<open>Scanning persisted snapshots\<close>

text \<open>
  What the scanner can meet on disk.  A file is represented by the outcome of reading
  and parsing it: the parsed value, a text that \<open>JSON.parse\<close> rejects, a file that has
  gone in the meantime (\<open>ENOENT\<close>), or another read failure.  A directory lists its
  entries in the order \<open>readdir\<close> returns them, or cannot be listed.  \<open>FOther\<close> is an
  entry that is neither a file nor a directory.
\<close>

datatype file_read = Parsed json | Unparsable | ReadENOENT | ReadFailure string

datatype fsnode =
    FFile file_read
  | FDir "(string \<times> fsnode) list"
  | FDirFailure string
  | FOther

definition endsWith :: "string \<Rightarrow> string \<Rightarrow> bool" where
  "endsWith s suffix = (length suffix \<le> length s \<and> drop (length s - length suffix) s = suffix)"

text \<open>
  \<open>collectIdentityAnswerFiles\<close>: the argument is what is found at \<open>dir\<close> (\<open>None\<close> when
  nothing is there).  Each path is returned with the file found at it.
\<close>

fun collectIdentityAnswerFiles ::
  "(string list \<Rightarrow> string) \<Rightarrow> string \<Rightarrow> fsnode option \<Rightarrow> error + (string \<times> file_read) list"
and collectEntries ::
  "(string list \<Rightarrow> string) \<Rightarrow> string \<Rightarrow> (string \<times> fsnode) list \<Rightarrow>
   error + (string \<times> file_read) list" where
  "collectIdentityAnswerFiles pj dir None = Inr []"
| "collectIdentityAnswerFiles pj dir (Some (FFile c)) = Inr []"
| "collectIdentityAnswerFiles pj dir (Some FOther) = Inr []"
| "collectIdentityAnswerFiles pj dir (Some (FDirFailure msg)) = Inl (Error msg)"
| "collectIdentityAnswerFiles pj dir (Some (FDir entries)) = collectEntries pj dir entries"
| "collectEntries pj dir [] = Inr []"
| "collectEntries pj dir ((name, entry) # rest) =
     (case entry of
        FDir sub \<Rightarrow>
          (case collectIdentityAnswerFiles pj (pj [dir, name]) (Some (FDir sub)) of
             Inl e \<Rightarrow> Inl e
           | Inr nested \<Rightarrow>
               (case collectEntries pj dir rest of
                  Inl e \<Rightarrow> Inl e
                | Inr files \<Rightarrow> Inr (nested @ files)))
      | FDirFailure msg \<Rightarrow> Inl (Error msg)
      | FFile c \<Rightarrow>
          (case collectEntries pj dir rest of
             Inl e \<Rightarrow> Inl e
           | Inr files \<Rightarrow>
               if endsWith name ''.json'' then Inr ((pj [dir, name], c) # files)
               else Inr files)
      | FOther \<Rightarrow> collectEntries pj dir rest)"

text \<open>\<open>isRecord\<close> and the typed reads of a parsed value.\<close>

definition asRecord :: "json option \<Rightarrow> (string \<times> json) list option" where
  "asRecord v = (case v of Some (JObj kvs) \<Rightarrow> Some kvs | _ \<Rightarrow> None)"

definition asString :: "json option \<Rightarrow> string option" where
  "asString v = (case v of Some (JStr s) \<Rightarrow> Some s | _ \<Rightarrow> None)"

definition asArray :: "json option \<Rightarrow> json list option" where
  "asArray v = (case v of Some (JArr xs) \<Rightarrow> Some xs | _ \<Rightarrow> None)"

definition nthOpt :: "'a list \<Rightarrow> nat \<Rightarrow> 'a option" where
  "nthOpt xs i = (if i < length xs then Some (xs ! i) else None)"

text \<open>One round of the loop over the stored segments.\<close>

definition readStoredSegment ::
  "json list \<Rightarrow> IdentitySegmentSpec list \<Rightarrow> nat \<Rightarrow> WizardIdentitySegmentSelection option" where
  "readStoredSegment segmentsValue expectedSegments index =
     (case asRecord (nthOpt segmentsValue index) of
        None \<Rightarrow> None
      | Some stored \<Rightarrow>
          (case asString (map_of stored ''value'') of
             None \<Rightarrow> None
           | Some v \<Rightarrow>
               Some \<lparr>sel_id =
                       (case asString (map_of stored ''id'') of
                          Some i \<Rightarrow> i
                        | None \<Rightarrow>
                            (case nthOpt expectedSegments index of
                               Some segment \<Rightarrow> seg_id segment
                             | None \<Rightarrow> ''segment-'' @ string_of_nat (index + 1))),
                     sel_value = v,
                     sel_label =
                       (case asString (map_of stored ''label'') of Some l \<Rightarrow> l | None \<Rightarrow> v),
                     sel_source = SourceCli,
                     sel_details = asRecord (map_of stored ''details'')\<rparr>))"

fun readStoredSegments ::
  "json list \<Rightarrow> IdentitySegmentSpec list \<Rightarrow> nat list \<Rightarrow>
   WizardIdentitySegmentSelection list option" where
  "readStoredSegments segmentsValue expectedSegments [] = Some []"
| "readStoredSegments segmentsValue expectedSegments (index # rest) =
     (case readStoredSegment segmentsValue expectedSegments index of
        None \<Rightarrow> None
      | Some s \<Rightarrow>
          (case readStoredSegments segmentsValue expectedSegments rest of
             None \<Rightarrow> None
           | Some ss \<Rightarrow> Some (s # ss)))"

text \<open>The checks on a parsed answer file.\<close>

definition snapshotOfJson ::
  "json \<Rightarrow> IdentitySegmentSpec list \<Rightarrow> WizardIdentitySelection option" where
  "snapshotOfJson parsed expectedSegments =
     (case asRecord (Some parsed) of
        None \<Rightarrow> None
      | Some root \<Rightarrow>
          (case asRecord (map_of root ''meta'') of
             None \<Rightarrow> None
           | Some meta \<Rightarrow>
               (case asRecord (map_of meta ''identity'') of
                  None \<Rightarrow> None
                | Some identity \<Rightarrow>
                    (let slugValue = asString (map_of identity ''slug'');
                         segmentsValue = asArray (map_of identity ''segments'')
                     in if \<not> truthy slugValue \<or> segmentsValue = None \<or>
                           length (the segmentsValue) \<noteq> length expectedSegments
                        then None
                        else
                          (case readStoredSegments (the segmentsValue) expectedSegments
                                  [0 ..< length expectedSegments] of
                             None \<Rightarrow> None
                           | Some selections \<Rightarrow>
                               Some \<lparr>slug = the slugValue, segments = selections\<rparr>)))))"

definition readIdentitySelectionSnapshot ::
  "file_read \<Rightarrow> IdentitySegmentSpec list \<Rightarrow> error + WizardIdentitySelection option" where
  "readIdentitySelectionSnapshot content expectedSegments =
     (case content of
        ReadENOENT \<Rightarrow> Inr None
      | ReadFailure msg \<Rightarrow> Inl (Error msg)
      | Unparsable \<Rightarrow> Inr None
      | Parsed parsed \<Rightarrow> Inr (snapshotOfJson parsed expectedSegments))"

text \<open>
  The loop over the files; \<open>selections\<close> is the \<open>Map\<close> keyed by slug, kept as the list
  of its values in insertion order.
\<close>

fun collectLoop ::
  "IdentitySegmentSpec list \<Rightarrow> (string \<times> file_read) list \<Rightarrow> WizardIdentitySelection list \<Rightarrow>
   error + WizardIdentitySelection list" where
  "collectLoop segs [] selections = Inr selections"
| "collectLoop segs ((filePath, content) # rest) selections =
     (case readIdentitySelectionSnapshot content segs of
        Inl e \<Rightarrow> Inl e
      | Inr None \<Rightarrow> collectLoop segs rest selections
      | Inr (Some sel) \<Rightarrow>
          if slug sel \<in> set (map slug selections) then collectLoop segs rest selections
          else collectLoop segs rest (selections @ [sel]))"

text \<open>
  \<open>sanitizePersistenceSegment\<close> and \<open>path.join\<close> come from outside this package and
  are parameters (\<open>sanitize\<close>, \<open>pj\<close>), as is the file system: \<open>fs dir\<close> is what is found
  at the path \<open>dir\<close>.
\<close>

definition collectPersistedIdentitySelections ::
  "(string list \<Rightarrow> string) \<Rightarrow> (string \<Rightarrow> string) \<Rightarrow> (string \<Rightarrow> fsnode option) \<Rightarrow>
   string \<Rightarrow> string \<Rightarrow> IdentitySegmentSpec list \<Rightarrow> error + WizardIdentitySelection list" where
  "collectPersistedIdentitySelections pj sanitize fs repoRoot scenarioId segs =
     (if length segs = 0 then Inr []
      else
        (let scenarioDir = pj [repoRoot, ''.dev-wizard'', ''answers'', sanitize scenarioId] in
         case collectIdentityAnswerFiles pj scenarioDir (fs scenarioDir) of
           Inl e \<Rightarrow> Inl e
         | Inr files \<Rightarrow> if length files = 0 then Inr [] else collectLoop segs files []))"

section \<open>Resolving the identity of a run\<close>

text \<open>
  Both normalizations fill a fresh plain object with \<open>normalized[key] = value\<close>.  Under
  the key \<open>__proto__\<close> this is no own property: a string is dropped by the setter, and
  an object becomes the prototype of \<open>normalized\<close>.
\<close>

definition normalizeIdentitySegmentOverrides ::
  "(string \<times> string) list option \<Rightarrow> (string \<times> string) list option" where
  "normalizeIdentitySegmentOverrides overrides =
     (case overrides of
        None \<Rightarrow> None
      | Some entries \<Rightarrow>
          (let normalized =
                 fold (\<lambda>(k, v) acc.
                         if trim k = [] \<or> trim v = [] then acc
                         else if trim k = ''__proto__'' then acc
                         else AList.update (trim k) (trim v) acc) entries []
           in if length normalized > 0 then Some normalized else None))"

definition normalizeMetadataEntry :: "IdentitySegmentMetadata \<Rightarrow> IdentitySegmentMetadata" where
  "normalizeMetadataEntry v =
     \<lparr>md_label =
        (case md_label v of
           None \<Rightarrow> None
         | Some l \<Rightarrow> if trim l = [] then None else Some (trim l)),
      md_details =
        (case md_details v of
           None \<Rightarrow> None
         | Some d \<Rightarrow> if length d > 0 then Some d else None)\<rparr>"

text \<open>\<open>{ ...value }\<close> for a value that is an object or an array, and nothing otherwise.\<close>

definition spreadValue :: "json option \<Rightarrow> details option" where
  "spreadValue v =
     (case v of
        Some (JObj kvs) \<Rightarrow> Some kvs
      | Some (JArr xs) \<Rightarrow> Some (zip (map string_of_nat [0 ..< length xs]) xs)
      | _ \<Rightarrow> None)"

text \<open>
  What a lookup finds through the prototype set by a \<open>__proto__\<close> entry: under
  \<open>__proto__\<close> that entry; under \<open>label\<close> its label, a string, which as a metadata
  override changes nothing; under \<open>details\<close> its details object, which is then read as a
  metadata override itself.
\<close>

definition inheritedMetadata ::
  "IdentitySegmentMetadata option \<Rightarrow> (string \<times> IdentitySegmentMetadata) list" where
  "inheritedMetadata proto =
     (case proto of
        None \<Rightarrow> []
      | Some entry \<Rightarrow>
          [(''__proto__'', entry)] @
          (case md_label entry of
             None \<Rightarrow> []
           | Some l \<Rightarrow> [(''label'', \<lparr>md_label = None, md_details = None\<rparr>)]) @
          (case md_details entry of
             None \<Rightarrow> []
           | Some d \<Rightarrow>
               [(''details'', \<lparr>md_label = asString (map_of d ''label''),
                              md_details = spreadValue (map_of d ''details'')\<rparr>)]))"

text \<open>
  The normalized metadata: the own entries, followed by what the prototype adds to the
  lookups.  The object is returned only when it has an own entry.
\<close>

definition normalizeIdentitySegmentMetadata ::
  "(string \<times> IdentitySegmentMetadata) list option \<Rightarrow>
   (string \<times> IdentitySegmentMetadata) list option" where
  "normalizeIdentitySegmentMetadata metadata =
     (case metadata of
        None \<Rightarrow> None
      | Some entries \<Rightarrow>
          (case fold (\<lambda>(k, v) (own, proto).
                        if trim k = [] then (own, proto)
                        else if md_label (normalizeMetadataEntry v) = None \<and>
                                md_details (normalizeMetadataEntry v) = None
                        then (own, proto)
                        else if trim k = ''__proto__''
                        then (own, Some (normalizeMetadataEntry v))
                        else (AList.update (trim k) (normalizeMetadataEntry v) own, proto))
                     entries ([], None) of
             (own, proto) \<Rightarrow>
               if length own > 0 then Some (own @ inheritedMetadata proto) else None))"

record ResolveOptions =
  repoRoot :: string
  scenarioId :: string
  identitySegments :: "IdentitySegmentSpec list option"
  providedSlug :: "string option"
  providedSegments :: "(string \<times> string) list option"
  providedSegmentDetails :: "(string \<times> IdentitySegmentMetadata) list option"
  usingExternalAnswers :: bool
  interactive :: bool

definition noIdentityMessage :: "string \<Rightarrow> string" where
  "noIdentityMessage sid =
     ''Scenario '' @ sid @
     '' does not define identity metadata, but identity overrides were provided.''"

definition missingIdentityMessage :: "string \<Rightarrow> string list \<Rightarrow> string" where
  "missingIdentityMessage sid missing =
     ''Scenario '' @ sid @ '' requires an answers identity'' @
     (if length missing > 0 then '' ('' @ joinWith '', '' missing @ '')'' else []) @
     ''. Re-run with --answers-identity <segment/...> or supply every segment via --answers-segment <id>=<value>.''"

definition hasKeys :: "(string \<times> 'v) list option \<Rightarrow> bool" where
  "hasKeys r = (case r of None \<Rightarrow> False | Some kvs \<Rightarrow> length kvs > 0)"

text \<open>A prompt flow whose selection is returned as the result of the resolution.\<close>

definition liftSome ::
  "(error + WizardIdentitySelection) \<times> io \<Rightarrow> (error + WizardIdentitySelection option) \<times> io" where
  "liftSome r =
     (case r of
        (Inl e, st') \<Rightarrow> (Inl e, st')
      | (Inr sel, st') \<Rightarrow> (Inr (Some sel), st'))"

text \<open>
  The second half of \<open>resolveWizardIdentitySelection\<close>, from the call of the builder
  with the single persisted identity (if any) as fallback.
\<close>

definition resolveWithFallback ::
  "IdentitySegmentSpec list \<Rightarrow> (string \<times> string) list option \<Rightarrow>
   (string \<times> IdentitySegmentMetadata) list option \<Rightarrow> WizardIdentitySelection option \<Rightarrow>
   ResolveOptions \<Rightarrow> io \<Rightarrow> (error + WizardIdentitySelection option) \<times> io" where
  "resolveWithFallback segs provided providedDetails persistedIdentity opts st =
     (case buildIdentitySelectionFromSources segs provided providedDetails persistedIdentity of
        Inl e \<Rightarrow> (Inl e, st)
      | Inr resolution \<Rightarrow>
          (case selection resolution of
             Some sel \<Rightarrow>
               if persistedIdentity \<noteq> None \<and> \<not> truthy (providedSlug opts) \<and>
                  \<not> hasKeys provided \<and> interactive opts \<and> \<not> usingExternalAnswers opts
               then
                 liftSome (promptForIdentitySegments segs None providedDetails
                             (Some (toIdentitySegmentDefaults (the persistedIdentity))) st)
               else (Inr (Some sel), st)
           | None \<Rightarrow>
               if usingExternalAnswers opts then (Inr None, st)
               else if \<not> interactive opts then
                 (Inl (Error (missingIdentityMessage (scenarioId opts)
                                (missingSegmentIds resolution))), st)
               else
                 liftSome (promptForIdentitySegments segs provided providedDetails
                             (case persistedIdentity of
                                Some p \<Rightarrow> Some (toIdentitySegmentDefaults p)
                              | None \<Rightarrow> None) st)))"

definition resolveWizardIdentitySelection ::
  "(string list \<Rightarrow> string) \<Rightarrow> (string \<Rightarrow> string) \<Rightarrow> (string \<Rightarrow> fsnode option) \<Rightarrow>
   ResolveOptions \<Rightarrow> io \<Rightarrow> (error + WizardIdentitySelection option) \<times> io" where
  "resolveWizardIdentitySelection pj sanitize fs opts st =
     (let segs = (case identitySegments opts of None \<Rightarrow> [] | Some xs \<Rightarrow> xs);
          provided = normalizeIdentitySegmentOverrides (providedSegments opts);
          providedDetails = normalizeIdentitySegmentMetadata (providedSegmentDetails opts);
          hasSegmentOverrides = hasKeys provided
      in
      if identitySegments opts = None \<or> length segs = 0 then
        (if truthy (providedSlug opts) \<or> hasKeys provided \<or> hasKeys providedDetails then
           (Inl (Error (noIdentityMessage (scenarioId opts))), st)
         else (Inr None, st))
      else if truthy (providedSlug opts) then
        (case parseIdentitySlug (the (providedSlug opts)) segs of
           Inl e \<Rightarrow> (Inl e, st)
         | Inr sel \<Rightarrow> (Inr (Some sel), st))
      else
        (case (if usingExternalAnswers opts then Inr None
               else (case collectPersistedIdentitySelections pj sanitize fs (repoRoot opts)
                            (scenarioId opts) segs of
                       Inl e \<Rightarrow> Inl e
                     | Inr found \<Rightarrow> Inr (Some found))) of
           Inl e \<Rightarrow> (Inl e, st)
         | Inr persistedIdentities \<Rightarrow>
             (let persistedIdentity =
                    (case persistedIdentities of Some [single] \<Rightarrow> Some single | _ \<Rightarrow> None)
              in
              if persistedIdentities \<noteq> None \<and> length (the persistedIdentities) > 1 \<and>
                 \<not> truthy (providedSlug opts) \<and> \<not> hasSegmentOverrides \<and>
                 interactive opts \<and> \<not> usingExternalAnswers opts
              then
                liftSome (promptForExistingIdentitySelection (the persistedIdentities) segs
                            providedDetails (fst st) (snd st))
              else resolveWithFallback segs provided providedDetails persistedIdentity opts st)))"

section \<open>Where the answers are stored\<close>

definition buildIdentityAnswersPath ::
  "(string list \<Rightarrow> string) \<Rightarrow> (string \<Rightarrow> string) \<Rightarrow> string \<Rightarrow> string \<Rightarrow>
   WizardIdentitySelection \<Rightarrow> string" where
  "buildIdentityAnswersPath pj sanitize root sid sel =
     (let baseDir = pj [root, ''.dev-wizard'', ''answers''];
          sanitizedScenario = sanitize sid;
          sanitizedSegments = map (\<lambda>segment. sanitize (sel_value segment)) (segments sel);
          directorySegments =
            filter (\<lambda>segment. length segment > 0)
              (sanitizedScenario #
               take (nat (max (int (length sanitizedSegments) - 1) 0)) sanitizedSegments);
          fileNameSegment =
            (case nthOpt sanitizedSegments (length sanitizedSegments - 1) of
               None \<Rightarrow> ''answers''
             | Some l \<Rightarrow> if l = [] then ''answers'' else l)
      in pj (baseDir # directorySegments @ [fileNameSegment @ ''.json'']))"

text \<open>What a stage of \<open>runDevWizard\<close> does with the rest of the run.\<close>

datatype 'a stage = ExitCode nat | Thrown error | Proceed 'a

text \<open>The stage that resolves the identity: a cancelled identity prompt ends the run.\<close>

definition identityStage ::
  "(string list \<Rightarrow> string) \<Rightarrow> (string \<Rightarrow> string) \<Rightarrow> (string \<Rightarrow> fsnode option) \<Rightarrow>
   ResolveOptions \<Rightarrow> io \<Rightarrow> WizardIdentitySelection option stage \<times> io" where
  "identityStage pj sanitize fs opts st =
     (case resolveWizardIdentitySelection pj sanitize fs opts st of
        (Inl e, st') \<Rightarrow>
          if e = IdentityPromptCancelledError then (ExitCode 0, st') else (Thrown e, st')
      | (Inr sel, st') \<Rightarrow> (Proceed sel, st'))"

text \<open>
  The stage that names the answers file.  \<open>resolvedAnswersPath\<close> is the explicit answers
  path made absolute, and \<open>derivedAlias\<close> what \<open>path.basename\<close> makes of it without its
  extension (read only when the path is set).  The copy of a legacy bootstrap file made
  on the way changes neither the alias nor the path and is left out.
\<close>

definition aliasRequest :: "string \<Rightarrow> request" where
  "aliasRequest sid =
     Text ''Name for the answers file (stored under .dev-wizard/answers/<name>.json):''
       (Some sid) (Some sid)"

definition answersAliasStage ::
  "(string list \<Rightarrow> string) \<Rightarrow> (string \<Rightarrow> string) \<Rightarrow> string \<Rightarrow> string \<Rightarrow>
   string option \<Rightarrow> string \<Rightarrow> WizardIdentitySelection option \<Rightarrow> bool \<Rightarrow> bool \<Rightarrow> io \<Rightarrow>
   (string \<times> string option) stage \<times> io" where
  "answersAliasStage pj sanitize root sid resolvedAnswersPath derivedAlias identitySelection
     loadPersistedAnswers interactiveTty st =
     (let lockDefaultAnswersAlias = (sid = ''workspace-bootstrap'' \<and> resolvedAnswersPath = None);
          answersAlias0 = (if lockDefaultAnswersAlias then ''workspace/bootstrap'' else sid);
          persistencePath0 =
            (if lockDefaultAnswersAlias
             then Some (pj [root, ''.dev-wizard'', ''answers'', ''workspace'', ''bootstrap.json''])
             else None)
      in
      case resolvedAnswersPath of
        Some p \<Rightarrow>
          (Proceed (if length (trim derivedAlias) > 0 then trim derivedAlias else answersAlias0,
                    Some p), st)
      | None \<Rightarrow>
          (case identitySelection of
             Some sel \<Rightarrow>
               (Proceed (sid @ ''/'' @ slug sel,
                         Some (buildIdentityAnswersPath pj sanitize root sid sel)), st)
           | None \<Rightarrow>
               if \<not> loadPersistedAnswers \<and> \<not> lockDefaultAnswersAlias \<and> interactiveTty then
                 (case ask (aliasRequest sid) st of
                    (None, st') \<Rightarrow> (Thrown AwaitingInput, st')
                  | (Some Cancel, st') \<Rightarrow> (ExitCode 0, st')
                  | (Some (Answer selectedAlias), st') \<Rightarrow>
                      (Proceed (if length (trim selectedAlias) > 0 then trim selectedAlias
                                else answersAlias0, persistencePath0), st'))
               else (Proceed (answersAlias0, persistencePath0), st)))"

text \<open>
  Recovering the identity from the metadata of the loaded answer file, when resolution
  left it open.
\<close>

record PersistedSegment =
  ps_id :: string
  ps_value :: string
  ps_label :: string
  ps_details :: "details option"

record PersistedIdentity =
  pi_slug :: "string option"
  pi_segments :: "PersistedSegment list option"

definition recoverIdentityFromMetadata ::
  "WizardIdentitySelection option \<Rightarrow> IdentitySegmentSpec list option \<Rightarrow>
   PersistedIdentity option \<Rightarrow> WizardIdentitySelection option" where
  "recoverIdentityFromMetadata identitySelection scenarioSegments identityMeta =
     (if identitySelection = None \<and> scenarioSegments \<noteq> None \<and>
         length (the scenarioSegments) > 0 then
        (case identityMeta of
           None \<Rightarrow> identitySelection
         | Some meta \<Rightarrow>
             (case pi_segments meta of
                None \<Rightarrow> identitySelection
              | Some stored \<Rightarrow>
                  if length stored = length (the scenarioSegments) then
                    Some \<lparr>slug =
                            (case pi_slug meta of
                               Some s \<Rightarrow>
                                 if length (trim s) > 0 then trim s
                                 else joinWith ''/'' (map ps_value stored)
                             | None \<Rightarrow> joinWith ''/'' (map ps_value stored)),
                          segments =
                            map (\<lambda>segment.
                                   \<lparr>sel_id = ps_id segment, sel_value = ps_value segment,
                                    sel_label = ps_label segment, sel_source = SourceCli,
                                    sel_details = ps_details segment\<rparr>) stored\<rparr>
                  else identitySelection))
      else identitySelection)"

text \<open>
  The stage that asks what to do with an answer file that already exists.  It yields
  whether the stored answers are used as they are, and whether they are cleared first.
\<close>

definition strategyStage ::
  "bool \<Rightarrow> bool \<Rightarrow> string option \<Rightarrow> bool \<Rightarrow> string \<Rightarrow> io \<Rightarrow> (bool \<times> bool) stage \<times> io" where
  "strategyStage didLoadExistingSnapshot interactiveTty answersPathUsed answersPathImplicit
     filePath st =
     (if didLoadExistingSnapshot \<and> interactiveTty \<and>
         (\<not> truthy answersPathUsed \<or> answersPathImplicit) then
        (case promptForPersistedAnswersStrategy filePath (fst st) (snd st) of
           (Inl e, st') \<Rightarrow>
             if e = PersistedAnswersStrategyCancelledError then (ExitCode 0, st')
             else (Thrown e, st')
         | (Inr Review, st') \<Rightarrow> (Proceed (False, False), st')
         | (Inr Reset, st') \<Rightarrow> (Proceed (False, True), st')
         | (Inr Reuse, st') \<Rightarrow> (Proceed (True, False), st'))
      else (Proceed (True, False), st))"

section \<open>Notions used to state the properties\<close>

text \<open>A declared segment is covered by an explicit value or by the fallback.\<close>

definition coveredByOverride :: "(string \<times> string) list option \<Rightarrow> IdentitySegmentSpec \<Rightarrow> bool" where
  "coveredByOverride provided segment = truthy (lookupOpt provided (seg_id segment))"

definition coveredByFallback :: "WizardIdentitySelection option \<Rightarrow> IdentitySegmentSpec \<Rightarrow> bool" where
  "coveredByFallback fallback segment =
     (case fallback of
        None \<Rightarrow> False
      | Some fb \<Rightarrow> seg_id segment \<in> set (map sel_id (segments fb)))"

definition covered ::
  "(string \<times> string) list option \<Rightarrow> WizardIdentitySelection option \<Rightarrow> IdentitySegmentSpec \<Rightarrow>
   bool" where
  "covered provided fallback segment =
     (coveredByOverride provided segment \<or> coveredByFallback fallback segment)"

text \<open>An explicit value a segment accepts: a listed option, or any value when custom
  values are allowed.\<close>

definition admissible :: "IdentitySegmentSpec \<Rightarrow> string \<Rightarrow> bool" where
  "admissible segment v = (findOption segment v \<noteq> None \<or> seg_allowCustom segment)"

definition overridesAdmissible ::
  "(string \<times> string) list option \<Rightarrow> IdentitySegmentSpec list \<Rightarrow> bool" where
  "overridesAdmissible provided segs =
     list_all (\<lambda>segment. \<not> coveredByOverride provided segment \<or>
                          admissible segment (the (lookupOpt provided (seg_id segment)))) segs"

text \<open>How the selection of a covered segment relates to its source.\<close>

definition resolvedFrom ::
  "(string \<times> string) list option \<Rightarrow> WizardIdentitySelection option \<Rightarrow> IdentitySegmentSpec \<Rightarrow>
   WizardIdentitySegmentSelection \<Rightarrow> bool" where
  "resolvedFrom provided fallback segment s =
     (if coveredByOverride provided segment then
        sel_id s = seg_id segment \<and> sel_value s = the (lookupOpt provided (seg_id segment)) \<and>
        sel_source s = SourceCli
      else
        sel_id s = seg_id segment \<and> fallback \<noteq> None \<and> s \<in> set (segments (the fallback)))"

text \<open>The invariant of a selection: the slug is the join of the values.\<close>

definition slugDerivable :: "WizardIdentitySelection \<Rightarrow> bool" where
  "slugDerivable sel = (slug sel = joinWith ''/'' (map sel_value (segments sel)))"

text \<open>
  A parsed answer file that passes the checks named for the scanner: an object whose
  \<open>meta.identity\<close> is an object with a string \<open>slug\<close> and an array \<open>segments\<close> of the
  declared length, each entry an object with a string \<open>value\<close>.
\<close>

definition wellFormedEntry :: "json \<Rightarrow> bool" where
  "wellFormedEntry entry =
     (case asRecord (Some entry) of
        None \<Rightarrow> False
      | Some kvs \<Rightarrow> asString (map_of kvs ''value'') \<noteq> None)"

definition wellFormedSnapshot :: "nat \<Rightarrow> json \<Rightarrow> bool" where
  "wellFormedSnapshot n parsed =
     (case asRecord (Some parsed) of
        None \<Rightarrow> False
      | Some root \<Rightarrow>
          (case asRecord (map_of root ''meta'') of
             None \<Rightarrow> False
           | Some meta \<Rightarrow>
               (case asRecord (map_of meta ''identity'') of
                  None \<Rightarrow> False
                | Some identity \<Rightarrow>
                    (case asString (map_of identity ''slug'') of
                       None \<Rightarrow> False
                     | Some s \<Rightarrow>
                         (case asArray (map_of identity ''segments'') of
                            None \<Rightarrow> False
                          | Some entries \<Rightarrow>
                              length entries = n \<and> list_all wellFormedEntry entries)))))"

text \<open>The stored slug and the stored entries of such a file.\<close>

definition storedSlug :: "json \<Rightarrow> string" where
  "storedSlug parsed =
     the (asString (map_of (the (asRecord (map_of (the (asRecord (map_of
       (the (asRecord (Some parsed))) ''meta''))) ''identity''))) ''slug''))"

definition storedEntries :: "json \<Rightarrow> json list" where
  "storedEntries parsed =
     the (asArray (map_of (the (asRecord (map_of (the (asRecord (map_of
       (the (asRecord (Some parsed))) ''meta''))) ''identity''))) ''segments''))"

definition storedId :: "json \<Rightarrow> string option" where
  "storedId entry = asString (map_of (the (asRecord (Some entry))) ''id'')"

text \<open>The snapshots held by a list of files, in the order of the files.\<close>

definition snapshotsIn ::
  "IdentitySegmentSpec list \<Rightarrow> (string \<times> file_read) list \<Rightarrow> WizardIdentitySelection list" where
  "snapshotsIn segs files =
     concat (map (\<lambda>(filePath, content).
                    case readIdentitySelectionSnapshot content segs of
                      Inr (Some sel) \<Rightarrow> [sel]
                    | _ \<Rightarrow> []) files)"

text \<open>
  The path of an identity as the specification words it: the base directory, the
  sanitized scenario id and the sanitized values but the last as directories (empty
  ones dropped), and the last sanitized value, or \<open>answers\<close>, as the file name.
\<close>

definition identityPathSpec ::
  "(string list \<Rightarrow> string) \<Rightarrow> (string \<Rightarrow> string) \<Rightarrow> string \<Rightarrow> string \<Rightarrow>
   WizardIdentitySelection \<Rightarrow> string" where
  "identityPathSpec pj sanitize root sid sel =
     pj (pj [root, ''.dev-wizard'', ''answers'']
         # filter (\<lambda>d. d \<noteq> [])
             (sanitize sid # map sanitize (butlast (map sel_value (segments sel))))
         @ [(if sanitize (last (map sel_value (segments sel))) = [] then ''answers''
             else sanitize (last (map sel_value (segments sel)))) @ ''.json''])"

text \<open>The persistence path a resolution leads to, when it yields a selection.\<close>

definition resolvedPersistencePath ::
  "(string list \<Rightarrow> string) \<Rightarrow> (string \<Rightarrow> string) \<Rightarrow> (string \<Rightarrow> fsnode option) \<Rightarrow>
   ResolveOptions \<Rightarrow> io \<Rightarrow> string option" where
  "resolvedPersistencePath pj sanitize fs opts st =
     (case fst (resolveWizardIdentitySelection pj sanitize fs opts st) of
        Inr (Some sel) \<Rightarrow>
          Some (buildIdentityAnswersPath pj sanitize (repoRoot opts) (scenarioId opts) sel)
      | _ \<Rightarrow> None)"

text \<open>
  A template seen as literal text and placeholders.  A placeholder is written as two
  opening braces, optional blanks, the id of a sibling, optional blanks and two closing
  braces; the id is a non-empty run of letters, digits, underscores and hyphens.
\<close>

datatype piece = Literal string | Placeholder string string string

fun pieceText :: "piece \<Rightarrow> string" where
  "pieceText (Literal s) = s"
| "pieceText (Placeholder before ident after) = ''{{'' @ before @ ident @ after @ ''}}''"

fun pieceValue :: "(string \<Rightarrow> WizardIdentitySegmentSelection option) \<Rightarrow> piece \<Rightarrow> string" where
  "pieceValue selectionMap (Literal s) = s"
| "pieceValue selectionMap (Placeholder before ident after) =
     (case selectionMap ident of Some sel \<Rightarrow> sel_value sel | None \<Rightarrow> [])"

definition templateText :: "piece list \<Rightarrow> string" where
  "templateText pieces = concat (map pieceText pieces)"

definition wellFormedPlaceholder :: "string \<Rightarrow> string \<Rightarrow> string \<Rightarrow> bool" where
  "wellFormedPlaceholder before ident after =
     (ident \<noteq> [] \<and> list_all is_ident_char ident \<and> list_all is_space before \<and>
      list_all is_space after)"

text \<open>A text that begins with a placeholder.\<close>

definition placeholderAt :: "string \<Rightarrow> bool" where
  "placeholderAt u =
     (\<exists>before ident after rest.
        wellFormedPlaceholder before ident after \<and>
        u = pieceText (Placeholder before ident after) @ rest)"

text \<open>
  The reading of a template from left to right: no placeholder begins inside a literal
  piece, whatever braces it holds, and every placeholder piece is written as above.
\<close>

fun wellFormedTemplate :: "piece list \<Rightarrow> bool" where
  "wellFormedTemplate [] = True"
| "wellFormedTemplate (Literal s # pieces) =
     (list_all (\<lambda>i. \<not> placeholderAt (drop i (s @ templateText pieces))) [0 ..< length s] \<and>
      wellFormedTemplate pieces)"
| "wellFormedTemplate (Placeholder before ident after # pieces) =
     (wellFormedPlaceholder before ident after \<and> wellFormedTemplate pieces)"

text \<open>
  The sibling resolved under an id among the selections made so far in a run, the latest
  one first; and the pre-fill a template gives over such siblings.
\<close>

definition resolvedSibling ::
  "WizardIdentitySegmentSelection list \<Rightarrow> string \<Rightarrow> WizardIdentitySegmentSelection option" where
  "resolvedSibling sels ident = find (\<lambda>s. sel_id s = ident) (rev sels)"

definition prefillOf ::
  "(string \<Rightarrow> WizardIdentitySegmentSelection option) \<Rightarrow> piece list \<Rightarrow> string option" where
  "prefillOf siblings pieces =
     (if trim (concat (map (pieceValue siblings) pieces)) = [] then None
      else Some (trim (concat (map (pieceValue siblings) pieces))))"

text \<open>A resolution that asks nothing: its result is the same for every prompt state, which
  it returns untouched, and it is not left waiting for an answer.\<close>

definition promptFree ::
  "(io \<Rightarrow> (error + WizardIdentitySelection option) \<times> io) \<Rightarrow> bool" where
  "promptFree f = (\<exists>x. x \<noteq> Inl AwaitingInput \<and> (\<forall>st. f st = (x, st)))"

section \<open>Example data\<close>

text \<open>The segments and snapshots of the scenarios the specification lists.\<close>

definition categorySegment :: IdentitySegmentSpec where
  "categorySegment =
     \<lparr>seg_key = SegId ''category'', seg_prompt = ''Select a category'',
      seg_options = Some [\<lparr>opt_value = ''maintenance'', opt_label = Some ''Maintenance'',
                           opt_hint = None\<rparr>],
      seg_allowCustom = False, seg_defaultValue = None, seg_placeholder = None\<rparr>"

definition cadenceSegment :: IdentitySegmentSpec where
  "cadenceSegment =
     \<lparr>seg_key = SegId ''cadence'', seg_prompt = ''Select cadence'',
      seg_options = Some [\<lparr>opt_value = ''daily'', opt_label = Some ''Daily'', opt_hint = None\<rparr>],
      seg_allowCustom = False, seg_defaultValue = None, seg_placeholder = None\<rparr>"

definition windowSegment :: IdentitySegmentSpec where
  "windowSegment =
     \<lparr>seg_key = SegId ''window'', seg_prompt = ''Name this window'', seg_options = None,
      seg_allowCustom = True, seg_defaultValue = Some ''{{cadence}}-maintenance'',
      seg_placeholder = Some ''weekly-maintenance''\<rparr>"

definition dailySelection :: WizardIdentitySegmentSelection where
  "dailySelection =
     \<lparr>sel_id = ''cadence'', sel_value = ''daily'', sel_label = ''Daily'',
      sel_source = SourceCli, sel_details = None\<rparr>"

definition maintenanceSelection :: WizardIdentitySegmentSelection where
  "maintenanceSelection =
     \<lparr>sel_id = ''category'', sel_value = ''maintenance'', sel_label = ''Maintenance'',
      sel_source = SourceCli, sel_details = None\<rparr>"

text \<open>An answer tree holding one snapshot, and the options of a run over it.\<close>

definition storedSnapshot :: json where
  "storedSnapshot =
     JObj [(''meta'', JObj [(''scenarioId'', JStr ''demo''),
        (''identity'',
         JObj [(''slug'', JStr ''maintenance/daily''),
               (''segments'',
                JArr [JObj [(''id'', JStr ''category''), (''value'', JStr ''maintenance''),
                            (''label'', JStr ''Maintenance'')],
                      JObj [(''id'', JStr ''cadence''), (''value'', JStr ''daily''),
                            (''label'', JStr ''Daily'')]])])]),
           (''scenario'', JObj [])]"

definition storedTree :: "string \<Rightarrow> fsnode option" where
  "storedTree dir =
     (if dir = ''/repo/.dev-wizard/answers/demo'' then
        Some (FDir [(''maintenance'', FDir [(''daily.json'', FFile (Parsed storedSnapshot))])])
      else None)"

definition demoOptions :: ResolveOptions where
  "demoOptions =
     \<lparr>repoRoot = ''/repo'', scenarioId = ''demo'',
      identitySegments = Some [categorySegment, cadenceSegment],
      providedSlug = None, providedSegments = None, providedSegmentDetails = None,
      usingExternalAnswers = False, interactive = False\<rparr>"

definition interactiveOptions :: ResolveOptions where
  "interactiveOptions =
     \<lparr>repoRoot = ''/repo'', scenarioId = ''demo'',
      identitySegments = Some [categorySegment, cadenceSegment],
      providedSlug = None, providedSegments = None, providedSegmentDetails = None,
      usingExternalAnswers = False, interactive = True\<rparr>"

text \<open>A snapshot whose stored segment has no id, and an answer tree with files the
  scanner passes over.\<close>

definition anonymousSnapshot :: json where
  "anonymousSnapshot =
     JObj [(''meta'', JObj [(''identity'',
        JObj [(''slug'', JStr ''daily''),
              (''segments'', JArr [JObj [(''value'', JStr ''daily'')]])])])]"

definition clutteredTree :: "string \<Rightarrow> fsnode option" where
  "clutteredTree dir =
     (if dir = ''/repo/.dev-wizard/answers/demo'' then
        Some (FDir [(''broken.json'', FFile Unparsable),
                    (''maintenance'',
                     FDir [(''daily.json'', FFile (Parsed storedSnapshot)),
                           (''daily-copy.json'', FFile (Parsed storedSnapshot)),
                           (''notes.txt'', FFile Unparsable)]),
                    (''short.json'', FFile (Parsed (JObj [])))])
      else None)"

text \<open>A cadence that can be weekly, and its selection.\<close>

definition weeklyCadenceSegment :: IdentitySegmentSpec where
  "weeklyCadenceSegment =
     \<lparr>seg_key = SegId ''cadence'', seg_prompt = ''Select cadence'',
      seg_options = Some [\<lparr>opt_value = ''daily'', opt_label = Some ''Daily'', opt_hint = None\<rparr>,
                          \<lparr>opt_value = ''weekly'', opt_label = Some ''Weekly'', opt_hint = None\<rparr>],
      seg_allowCustom = False, seg_defaultValue = None, seg_placeholder = None\<rparr>"

definition weeklySelection :: WizardIdentitySegmentSelection where
  "weeklySelection =
     \<lparr>sel_id = ''cadence'', sel_value = ''weekly'', sel_label = ''Weekly'',
      sel_source = SourceOption, sel_details = None\<rparr>"

section \<open>Segment ids\<close>

lemma in_objectPrototypeMembers [simp]:
  "(s \<in> set objectPrototypeMembers) =
     (s = ''constructor'' \<or> s = ''__defineGetter__'' \<or> s = ''__defineSetter__'' \<or>
      s = ''hasOwnProperty'' \<or> s = ''__lookupGetter__'' \<or> s = ''__lookupSetter__'' \<or>
      s = ''isPrototypeOf'' \<or> s = ''propertyIsEnumerable'' \<or> s = ''toString'' \<or>
      s = ''valueOf'' \<or> s = ''__proto__'' \<or> s = ''toLocaleString'')"
  unfolding objectPrototypeMembers_def by (simp only: list.set insert_iff empty_iff simp_thms)

lemma seg_id_literal [simp]:
  "s \<notin> set objectPrototypeMembers \<Longrightarrow>
   seg_id \<lparr>seg_key = SegId s, seg_prompt = p, seg_options = os, seg_allowCustom = a,
           seg_defaultValue = d, seg_placeholder = ph\<rparr> = s"
  by (simp add: seg_id_def SegId_inverse)

lemma seg_id_not_inherited: "seg_id segment \<notin> set objectPrototypeMembers"
  using id_text[of "seg_key segment"] by (simp add: seg_id_def)

lemma example_segment_ids:
  "seg_id categorySegment = ''category''" "seg_id cadenceSegment = ''cadence''"
  by (simp_all add: categorySegment_def cadenceSegment_def)

section \<open>The selection builder\<close>

lemma fold_upd_lookup:
  "fold (\<lambda>entry m. m(sel_id entry \<mapsto> entry)) es m0 k = Some e \<Longrightarrow>
   (e \<in> set es \<and> sel_id e = k) \<or> m0 k = Some e"
proof (induction es arbitrary: m0)
  case Nil
  then show ?case by simp
next
  case (Cons a es)
  from Cons.prems have "fold (\<lambda>entry m. m(sel_id entry \<mapsto> entry)) es (m0(sel_id a \<mapsto> a)) k = Some e"
    by (simp del: fun_upd_apply)
  from Cons.IH[OF this] show ?case
    by (cases "sel_id a = k") auto
qed

lemma fold_upd_dom:
  "(fold (\<lambda>entry m. m(sel_id entry \<mapsto> entry)) es m0 k \<noteq> None) =
   (k \<in> set (map sel_id es) \<or> m0 k \<noteq> None)"
  by (induction es arbitrary: m0) auto

lemma fallbackMapOf_covered:
  "(fallbackMapOf fallback (seg_id segment) \<noteq> None) = coveredByFallback fallback segment"
proof (cases fallback)
  case None
  then show ?thesis by (simp add: fallbackMapOf_def coveredByFallback_def)
next
  case (Some fb)
  show ?thesis
    using fold_upd_dom[of "segments fb" Map.empty "seg_id segment"] Some
    by (simp add: fallbackMapOf_def coveredByFallback_def)
qed

lemma fallbackMapOf_Some:
  "fallbackMapOf fallback k = Some e \<Longrightarrow>
   fallback \<noteq> None \<and> e \<in> set (segments (the fallback)) \<and> sel_id e = k"
  by (cases fallback) (auto simp: fallbackMapOf_def dest: fold_upd_lookup)

lemma withMetadata_keeps [simp]:
  "sel_id (withMetadata md s) = sel_id s"
  "sel_value (withMetadata md s) = sel_value s"
  "sel_source (withMetadata md s) = sel_source s"
  by (auto simp: withMetadata_def Let_def split: option.splits)

lemma find_opt_value:
  "find (\<lambda>candidate. opt_value candidate = v) opts = Some opt \<Longrightarrow> opt_value opt = v"
  by (induction opts) (auto split: if_splits)

lemma findOption_value: "findOption segment v = Some opt \<Longrightarrow> opt_value opt = v"
  by (auto simp: findOption_def split: option.splits dest: find_opt_value)

lemma build_segment_ok:
  "acceptUnlisted \<or> admissible segment v \<Longrightarrow>
   \<exists>s. buildWizardIdentitySegmentSelection segment v src md acceptUnlisted = Inr s \<and>
       sel_id s = seg_id segment \<and> sel_value s = v \<and> sel_source s = src"
  by (auto simp: buildWizardIdentitySegmentSelection_def admissible_def
      split: option.splits dest: findOption_value)

lemma build_segment_Inr:
  "buildWizardIdentitySegmentSelection segment v src md acceptUnlisted = Inr s \<Longrightarrow>
   sel_id s = seg_id segment \<and> sel_value s = v \<and> sel_source s = src"
  by (auto simp: buildWizardIdentitySegmentSelection_def
      split: option.splits if_splits dest: findOption_value)

lemma buildLoop_spec:
  "overridesAdmissible provided segs \<Longrightarrow>
   \<exists>sels'. buildLoop (fallbackMapOf fallback) provided pm segs sels missing =
             Inr (sels @ sels',
                  missing @ map seg_id (filter (\<lambda>s. \<not> covered provided fallback s) segs)) \<and>
           list_all2 (resolvedFrom provided fallback)
             (filter (covered provided fallback) segs) sels'"
proof (induction segs arbitrary: sels missing)
  case Nil
  then show ?case by simp
next
  case (Cons segment rest)
  from Cons.prems have adm: "overridesAdmissible provided rest"
    by (simp add: overridesAdmissible_def)
  show ?case
  proof (cases "coveredByOverride provided segment")
    case True
    with Cons.prems have "admissible segment (the (lookupOpt provided (seg_id segment)))"
      by (simp add: overridesAdmissible_def)
    then obtain s where s:
      "buildWizardIdentitySegmentSelection segment (the (lookupOpt provided (seg_id segment)))
         SourceCli (lookupOpt pm (seg_id segment)) False = Inr s"
      "sel_id s = seg_id segment" "sel_value s = the (lookupOpt provided (seg_id segment))"
      "sel_source s = SourceCli"
      using build_segment_ok[of False segment _ SourceCli] by blast
    from Cons.IH[OF adm, of "sels @ [s]" missing] obtain sels' where
      r: "buildLoop (fallbackMapOf fallback) provided pm rest (sels @ [s]) missing =
            Inr ((sels @ [s]) @ sels',
                 missing @ map seg_id (filter (\<lambda>s. \<not> covered provided fallback s) rest))"
        "list_all2 (resolvedFrom provided fallback)
           (filter (covered provided fallback) rest) sels'"
      by blast
    have "resolvedFrom provided fallback segment s"
      using True s by (simp add: resolvedFrom_def)
    moreover have "covered provided fallback segment"
      using True by (simp add: covered_def)
    moreover have "truthy (lookupOpt provided (seg_id segment))"
      using True by (simp add: coveredByOverride_def)
    ultimately show ?thesis using r s(1)
      by (intro exI[of _ "s # sels'"]) simp
  next
    case False
    show ?thesis
    proof (cases "fallbackMapOf fallback (seg_id segment)")
      case None
      then have nc: "\<not> covered provided fallback segment"
        using False fallbackMapOf_covered[of fallback segment] by (simp add: covered_def)
      from Cons.IH[OF adm, of sels "missing @ [seg_id segment]"] obtain sels' where
        r: "buildLoop (fallbackMapOf fallback) provided pm rest sels (missing @ [seg_id segment]) =
              Inr (sels @ sels',
                   (missing @ [seg_id segment]) @
                   map seg_id (filter (\<lambda>s. \<not> covered provided fallback s) rest))"
          "list_all2 (resolvedFrom provided fallback)
             (filter (covered provided fallback) rest) sels'"
        by blast
      moreover have "\<not> truthy (lookupOpt provided (seg_id segment))"
        using False by (simp add: coveredByOverride_def)
      ultimately show ?thesis using None nc
        by (intro exI[of _ sels']) simp
    next
      case (Some e)
      then have c: "covered provided fallback segment"
        using fallbackMapOf_covered[of fallback segment] by (simp add: covered_def)
      from Some have "resolvedFrom provided fallback segment e"
        using False fallbackMapOf_Some[OF Some] by (simp add: resolvedFrom_def)
      moreover from Cons.IH[OF adm, of "sels @ [e]" missing] obtain sels' where
        r: "buildLoop (fallbackMapOf fallback) provided pm rest (sels @ [e]) missing =
              Inr ((sels @ [e]) @ sels',
                   missing @ map seg_id (filter (\<lambda>s. \<not> covered provided fallback s) rest))"
          "list_all2 (resolvedFrom provided fallback)
             (filter (covered provided fallback) rest) sels'"
        by blast
      moreover have "\<not> truthy (lookupOpt provided (seg_id segment))"
        using False by (simp add: coveredByOverride_def)
      ultimately show ?thesis using Some c
        by (intro exI[of _ "e # sels'"]) simp
    qed
  qed
qed





text \<open>
  C3 on the code: a metadata override for a segment whose value comes from the fallback
  is not applied.  The declared segment \<open>cadence\<close> has no explicit value, the fallback
  holds it with the label \<open>Daily\<close>, and the metadata override gives the label \<open>Nightly\<close>:
  the builder returns the label \<open>Daily\<close>.  \<open>applyIdentityMetadataOverrides\<close>, which the
  code defines and never calls, would have set \<open>Nightly\<close>.
\<close>

theorem fallback_segment_ignores_metadata_override:
  "buildIdentitySelectionFromSources [cadenceSegment] None
     (Some [(''cadence'', \<lparr>md_label = Some ''Nightly'', md_details = None\<rparr>)])
     (Some \<lparr>slug = ''daily'', segments = [dailySelection]\<rparr>) =
     Inr \<lparr>selection = Some \<lparr>slug = ''daily'', segments = [dailySelection]\<rparr>,
          missingSegmentIds = []\<rparr> \<and>
   sel_label dailySelection = ''Daily'' \<and>
   map sel_label (segments (applyIdentityMetadataOverrides
       \<lparr>slug = ''daily'', segments = [dailySelection]\<rparr>
       (Some [(''cadence'', \<lparr>md_label = Some ''Nightly'', md_details = None\<rparr>)]))) =
     [''Nightly'']"
  by (simp add: buildIdentitySelectionFromSources_def fallbackMapOf_def truthy_def lookupOpt_def
      applyIdentityMetadataOverrides_def withMetadata_def cadenceSegment_def
      dailySelection_def)

section \<open>The slug of a resolved selection\<close>

lemma parseIdentitySlug_derivable:
  "parseIdentitySlug s segs = Inr sel \<Longrightarrow> slugDerivable sel"
  by (auto simp: parseIdentitySlug_def Let_def slugDerivable_def split: if_splits sum.splits)

lemma promptForIdentitySegments_derivable:
  "promptForIdentitySegments segs provided mdo defaults st = (Inr sel, st') \<Longrightarrow>
   slugDerivable sel"
  by (auto simp: promptForIdentitySegments_def slugDerivable_def split: prod.splits sum.splits)

lemma promptForExisting_derivable:
  "promptForExistingIdentitySelection existing segs mdo rs asked = (Inr sel, st') \<Longrightarrow>
   slugDerivable sel"
proof (induction rs arbitrary: asked)
  case Nil
  then show ?case by simp
next
  case (Cons r rs)
  then show ?case
    by (auto simp: Let_def split: response.splits if_splits option.splits
        dest: promptForIdentitySegments_derivable)
qed

lemma builder_derivable:
  "buildIdentitySelectionFromSources segs provided pm fallback = Inr resolution \<Longrightarrow>
   selection resolution = Some sel \<Longrightarrow> slugDerivable sel"
  by (auto simp: buildIdentitySelectionFromSources_def slugDerivable_def
      split: sum.splits prod.splits if_splits)

lemma resolve_derivable:
  assumes "resolveWizardIdentitySelection pj sanitize fs opts st = (Inr (Some sel), st')"
  shows "slugDerivable sel"
  using assms
  unfolding resolveWizardIdentitySelection_def resolveWithFallback_def liftSome_def Let_def
  by (auto split: if_splits sum.splits prod.splits option.splits
      dest: parseIdentitySlug_derivable promptForIdentitySegments_derivable
        promptForExisting_derivable builder_derivable)

lemma recover_slug:
  "recoverIdentityFromMetadata None scenarioSegments (Some meta) = Some sel \<Longrightarrow>
   (if truthy (map_option trim (pi_slug meta)) then slug sel = trim (the (pi_slug meta))
    else slugDerivable sel)"
  by (auto simp: recoverIdentityFromMetadata_def slugDerivable_def truthy_def comp_def
      split: if_splits option.splits)

lemma snapshot_slug_stored:
  "readIdentitySelectionSnapshot (Parsed parsed) segs = Inr (Some sel) \<Longrightarrow>
   slug sel = storedSlug parsed"
  by (auto simp: readIdentitySelectionSnapshot_def snapshotOfJson_def storedSlug_def Let_def
      split: option.splits if_splits)

text \<open>
  C2, as the code has it.  Every selection that \<open>resolveWizardIdentitySelection\<close> returns
  (from an explicit slug, from the prompts, or from the builder over overrides and the
  fallback) has a slug equal to the join of its segments' values.  The selection
  recovered from the metadata of an answer file has the stored slug, trimmed, when that
  is not blank, and the join of its segments' values otherwise.  A selection read back
  from a snapshot by the scanner has the slug the file stores, unchanged.
\<close>

theorem resolved_selection_slug_derivable:
  "(resolveWizardIdentitySelection pj sanitize fs opts st = (Inr (Some sel), st') \<longrightarrow>
      slugDerivable sel) \<and>
   (recoverIdentityFromMetadata None scenarioSegments (Some meta) = Some sel' \<longrightarrow>
      (if truthy (map_option trim (pi_slug meta)) then slug sel' = trim (the (pi_slug meta))
       else slugDerivable sel')) \<and>
   (readIdentitySelectionSnapshot (Parsed parsed) segs = Inr (Some sel'') \<longrightarrow>
      slug sel'' = storedSlug parsed)"
  using resolve_derivable recover_slug snapshot_slug_stored by blast

theorem resolved_selection_slug_derivable_witness:
  "resolveWizardIdentitySelection (joinWith ''/'') trim (\<lambda>dir. None)
     \<lparr>repoRoot = ''/repo'', scenarioId = ''demo'',
      identitySegments = Some [categorySegment, cadenceSegment],
      providedSlug = None, providedSegments = Some [('' category'', ''maintenance''),
        (''cadence'', ''daily '')],
      providedSegmentDetails = None, usingExternalAnswers = False, interactive = False\<rparr>
     ([], []) =
     (Inr (Some \<lparr>slug = ''maintenance/daily'',
                 segments = [maintenanceSelection, dailySelection]\<rparr>), ([], [])) \<and>
   slugDerivable \<lparr>slug = ''maintenance/daily'',
                  segments = [maintenanceSelection, dailySelection]\<rparr> \<and>
   recoverIdentityFromMetadata None (Some [cadenceSegment])
     (Some \<lparr>pi_slug = Some '' '',
            pi_segments = Some [\<lparr>ps_id = ''cadence'', ps_value = ''daily'',
                                  ps_label = ''Daily'', ps_details = None\<rparr>]\<rparr>) =
     Some \<lparr>slug = ''daily'', segments = [dailySelection]\<rparr> \<and>
   slugDerivable \<lparr>slug = ''daily'', segments = [dailySelection]\<rparr> \<and>
   recoverIdentityFromMetadata None (Some [cadenceSegment])
     (Some \<lparr>pi_slug = Some '' weekly '',
            pi_segments = Some [\<lparr>ps_id = ''cadence'', ps_value = ''daily'',
                                  ps_label = ''Daily'', ps_details = None\<rparr>]\<rparr>) =
     Some \<lparr>slug = ''weekly'', segments = [dailySelection]\<rparr> \<and>
   readIdentitySelectionSnapshot (Parsed storedSnapshot) [categorySegment, cadenceSegment] =
     Inr (Some \<lparr>slug = ''maintenance/daily'',
                segments = [maintenanceSelection, dailySelection]\<rparr>) \<and>
   storedSlug storedSnapshot = ''maintenance/daily''"
proof -
  have r: "resolveWizardIdentitySelection (joinWith ''/'') trim (\<lambda>dir. None)
     \<lparr>repoRoot = ''/repo'', scenarioId = ''demo'',
      identitySegments = Some [categorySegment, cadenceSegment],
      providedSlug = None, providedSegments = Some [('' category'', ''maintenance''),
        (''cadence'', ''daily '')],
      providedSegmentDetails = None, usingExternalAnswers = False, interactive = False\<rparr>
     ([], []) =
     (Inr (Some \<lparr>slug = ''maintenance/daily'',
                 segments = [maintenanceSelection, dailySelection]\<rparr>), ([], []))"
    by (simp add: resolveWizardIdentitySelection_def resolveWithFallback_def
        normalizeIdentitySegmentOverrides_def
        normalizeIdentitySegmentMetadata_def hasKeys_def truthy_def trim_def is_space_def
        collectPersistedIdentitySelections_def buildIdentitySelectionFromSources_def
        fallbackMapOf_def lookupOpt_def buildWizardIdentitySegmentSelection_def
        findOption_def withMetadata_def categorySegment_def cadenceSegment_def
        maintenanceSelection_def dailySelection_def)
  have m: "recoverIdentityFromMetadata None (Some [cadenceSegment])
     (Some \<lparr>pi_slug = Some '' '',
            pi_segments = Some [\<lparr>ps_id = ''cadence'', ps_value = ''daily'',
                                  ps_label = ''Daily'', ps_details = None\<rparr>]\<rparr>) =
     Some \<lparr>slug = ''daily'', segments = [dailySelection]\<rparr>"
    by (simp add: recoverIdentityFromMetadata_def trim_def is_space_def dailySelection_def)
  have w: "recoverIdentityFromMetadata None (Some [cadenceSegment])
     (Some \<lparr>pi_slug = Some '' weekly '',
            pi_segments = Some [\<lparr>ps_id = ''cadence'', ps_value = ''daily'',
                                  ps_label = ''Daily'', ps_details = None\<rparr>]\<rparr>) =
     Some \<lparr>slug = ''weekly'', segments = [dailySelection]\<rparr>"
    by (simp add: recoverIdentityFromMetadata_def trim_def is_space_def dailySelection_def)
  have s: "readIdentitySelectionSnapshot (Parsed storedSnapshot)
             [categorySegment, cadenceSegment] =
     Inr (Some \<lparr>slug = ''maintenance/daily'',
                segments = [maintenanceSelection, dailySelection]\<rparr>)"
    by (simp add: readIdentitySelectionSnapshot_def snapshotOfJson_def asRecord_def
        asString_def asArray_def truthy_def readStoredSegment_def nthOpt_def Let_def
        storedSnapshot_def maintenanceSelection_def dailySelection_def upt_rec)
  have b: "\<not> truthy (map_option trim (pi_slug \<lparr>pi_slug = Some '' '',
            pi_segments = Some [\<lparr>ps_id = ''cadence'', ps_value = ''daily'',
                                  ps_label = ''Daily'', ps_details = None\<rparr>]\<rparr>))"
    by (simp add: truthy_def trim_def is_space_def)
  from resolved_selection_slug_derivable[THEN conjunct1, rule_format, OF r]
       resolved_selection_slug_derivable[THEN conjunct2, THEN conjunct1, rule_format, OF m]
       resolved_selection_slug_derivable[THEN conjunct2, THEN conjunct2, rule_format, OF s]
       r m w s b
  show ?thesis by simp
qed

text \<open>
  C2 as stated fails for the scanner's read-back: an answer file whose stored slug is
  \<open>weekly\<close> and whose one stored segment has the value \<open>daily\<close> is read as a selection
  with that slug and that segment.
\<close>

theorem snapshot_slug_not_derivable:
  "readIdentitySelectionSnapshot
     (Parsed (JObj [(''meta'', JObj [(''identity'',
        JObj [(''slug'', JStr ''weekly''),
              (''segments'', JArr [JObj [(''id'', JStr ''cadence''), (''value'', JStr ''daily''),
                                         (''label'', JStr ''Daily'')]])])])]))
     [cadenceSegment]
   = Inr (Some \<lparr>slug = ''weekly'', segments = [dailySelection]\<rparr>) \<and>
   \<not> slugDerivable \<lparr>slug = ''weekly'', segments = [dailySelection]\<rparr>"
  by (simp add: readIdentitySelectionSnapshot_def snapshotOfJson_def asRecord_def asString_def
      asArray_def truthy_def readStoredSegment_def nthOpt_def Let_def slugDerivable_def
      dailySelection_def cadenceSegment_def)

section \<open>An explicit slug\<close>

lemma sequence_builds:
  "length segs = length parts \<Longrightarrow>
   \<exists>sels. sequenceSum (map (\<lambda>(segment, v).
              buildWizardIdentitySegmentSelection segment v SourceCli None True)
              (zip segs parts)) = Inr sels \<and>
          map sel_value sels = parts \<and> map sel_id sels = map seg_id segs \<and>
          list_all (\<lambda>x. sel_source x = SourceCli) sels"
proof (induction segs parts rule: list_induct2)
  case Nil
  then show ?case by simp
next
  case (Cons segment segs v parts)
  obtain s where s: "buildWizardIdentitySegmentSelection segment v SourceCli None True = Inr s"
    "sel_id s = seg_id segment" "sel_value s = v" "sel_source s = SourceCli"
    using build_segment_ok[of True segment v SourceCli None] by auto
  from Cons.IH obtain sels where
    "sequenceSum (map (\<lambda>(segment, v).
        buildWizardIdentitySegmentSelection segment v SourceCli None True)
        (zip segs parts)) = Inr sels"
    "map sel_value sels = parts" "map sel_id sels = map seg_id segs"
    "list_all (\<lambda>x. sel_source x = SourceCli) sels"
    by blast
  with s show ?case by (intro exI[of _ "s # sels"]) simp
qed

lemma parseIdentitySlug_mismatch:
  "length (slugParts s) \<noteq> length segs \<Longrightarrow>
   parseIdentitySlug s segs =
     Inl (Error (segmentCountMessage (length segs) (length (slugParts s))))"
  by (simp add: parseIdentitySlug_def Let_def)

lemma parseIdentitySlug_match:
  assumes "length (slugParts s) = length segs"
  shows "\<exists>sel. parseIdentitySlug s segs = Inr sel \<and>
           map sel_value (segments sel) = slugParts s \<and>
           map sel_id (segments sel) = map seg_id segs \<and>
           list_all (\<lambda>x. sel_source x = SourceCli) (segments sel) \<and>
           slug sel = joinWith ''/'' (slugParts s)"
proof -
  from sequence_builds[of segs "slugParts s"] assms obtain sels where
    "sequenceSum (map (\<lambda>(segment, v).
        buildWizardIdentitySegmentSelection segment v SourceCli None True)
        (zip segs (slugParts s))) = Inr sels"
    "map sel_value sels = slugParts s" "map sel_id sels = map seg_id segs"
    "list_all (\<lambda>x. sel_source x = SourceCli) sels"
    by auto
  with assms show ?thesis by (simp add: parseIdentitySlug_def Let_def)
qed

lemma resolve_with_slug:
  assumes "identitySegments opts = Some segs" "segs \<noteq> []" "providedSlug opts = Some s" "s \<noteq> []"
  shows "resolveWizardIdentitySelection pj sanitize fs opts st =
           (case parseIdentitySlug s segs of Inl e \<Rightarrow> Inl e | Inr sel \<Rightarrow> Inr (Some sel), st)"
  using assms
  by (simp add: resolveWizardIdentitySelection_def Let_def truthy_def split: sum.splits)

text \<open>What splitting on a separator and trimming amount to.\<close>

lemma split_on_nonempty: "split_on c s \<noteq> []"
  by (induction s) (auto split: list.splits)

lemma join_split: "joinWith [c] (split_on c s) = s"
proof (induction s)
  case Nil
  then show ?case by simp
next
  case (Cons x xs)
  obtain p ps where ps: "split_on c xs = p # ps"
    using split_on_nonempty[of c xs] by (cases "split_on c xs") auto
  with Cons show ?case by (cases ps) auto
qed

lemma split_pieces_free: "p \<in> set (split_on c s) \<Longrightarrow> c \<notin> set p"
  by (induction s arbitrary: p) (auto split: list.splits if_splits)

lemma last_dropWhile: "dropWhile P xs \<noteq> [] \<Longrightarrow> last (dropWhile P xs) = last xs"
  by (induction xs) (auto split: if_splits)

lemma trim_spec:
  "\<exists>l r. p = l @ trim p @ r \<and> list_all is_space l \<and> list_all is_space r \<and>
          (trim p = [] \<or> \<not> is_space (hd (trim p)) \<and> \<not> is_space (last (trim p)))"
proof -
  let ?q = "dropWhile is_space p"
  let ?l = "takeWhile is_space p"
  let ?r = "rev (takeWhile is_space (rev ?q))"
  have 1: "p = ?l @ ?q" by simp
  have "rev (dropWhile is_space (rev ?q)) @ ?r =
          rev (takeWhile is_space (rev ?q) @ dropWhile is_space (rev ?q))"
    by (simp only: rev_append)
  also have "\<dots> = ?q" by (simp only: takeWhile_dropWhile_id rev_rev_ident)
  finally have 2: "?q = trim p @ ?r" by (simp add: trim_def)
  have 3: "list_all is_space ?l" "list_all is_space ?r"
    by (auto simp: list_all_iff dest: set_takeWhileD)
  have 4: "trim p = [] \<or> \<not> is_space (hd (trim p)) \<and> \<not> is_space (last (trim p))"
  proof (cases "trim p = []")
    case True
    then show ?thesis by simp
  next
    case False
    then have ne: "dropWhile is_space (rev ?q) \<noteq> []" by (simp add: trim_def)
    then have a: "\<not> is_space (hd (dropWhile is_space (rev ?q)))"
      by (rule hd_dropWhile)
    from ne have qne: "?q \<noteq> []"
    proof (rule contrapos_nn)
      assume "?q = []"
      then show "dropWhile is_space (rev ?q) = []" by (simp only: rev.simps dropWhile.simps)
    qed
    then have b: "\<not> is_space (hd ?q)" by (rule hd_dropWhile)
    have "last (dropWhile is_space (rev ?q)) = last (rev ?q)"
      using ne by (rule last_dropWhile)
    also have "\<dots> = hd ?q" using qne by (simp add: last_rev)
    finally have c: "last (dropWhile is_space (rev ?q)) = hd ?q" .
    have "hd (trim p) = last (dropWhile is_space (rev ?q))"
      using ne by (simp add: trim_def hd_rev)
    moreover have "last (trim p) = hd (dropWhile is_space (rev ?q))"
      using ne by (simp add: trim_def last_rev)
    ultimately show ?thesis using a b c by simp
  qed
  from 1 2 have "p = ?l @ trim p @ ?r" by metis
  with 3 4 show ?thesis by blast
qed

text \<open>
  C7.  Take a scenario that declares segments and a non-empty explicit slug.  The
  pieces of the slug are the strings without a slash whose join with slashes is the slug;
  trimming a piece removes white space, and only white space, from both its ends, until
  neither end is white space; the parts of the slug are the trimmed pieces that are not
  empty, in order.  When the number of parts differs from the number of declared
  segments, resolution fails with the message naming both numbers; otherwise it returns
  the selection whose values are the parts, listed as options or not, with the declared
  ids and the source \<open>cli\<close>.  In both cases the result is the same for every file system
  and the prompt state is returned untouched: nothing is read and nothing is asked.
\<close>

theorem explicit_slug_resolution:
  assumes "identitySegments opts = Some segs" "segs \<noteq> []" "providedSlug opts = Some s" "s \<noteq> []"
  shows "joinWith ''/'' (split_on CHR ''/'' s) = s \<and>
         (\<forall>p \<in> set (split_on CHR ''/'' s). CHR ''/'' \<notin> set p) \<and>
         (\<forall>p. \<exists>l r. p = l @ trim p @ r \<and> list_all is_space l \<and> list_all is_space r \<and>
                 (trim p = [] \<or> \<not> is_space (hd (trim p)) \<and> \<not> is_space (last (trim p)))) \<and>
         slugParts s = filter (\<lambda>p. p \<noteq> []) (map trim (split_on CHR ''/'' s)) \<and>
         (length (slugParts s) \<noteq> length segs \<longrightarrow>
            resolveWizardIdentitySelection pj sanitize fs opts st =
              (Inl (Error (segmentCountMessage (length segs) (length (slugParts s)))), st)) \<and>
         (length (slugParts s) = length segs \<longrightarrow>
            (\<exists>sel. resolveWizardIdentitySelection pj sanitize fs opts st = (Inr (Some sel), st) \<and>
               map sel_value (segments sel) = slugParts s \<and>
               map sel_id (segments sel) = map seg_id segs \<and>
               list_all (\<lambda>x. sel_source x = SourceCli) (segments sel) \<and>
               slug sel = joinWith ''/'' (slugParts s)))"
proof (intro conjI impI allI ballI)
  show "joinWith ''/'' (split_on CHR ''/'' s) = s"
    by (rule join_split)
next
  fix p assume "p \<in> set (split_on CHR ''/'' s)"
  then show "CHR ''/'' \<notin> set p" by (rule split_pieces_free)
next
  fix p
  show "\<exists>l r. p = l @ trim p @ r \<and> list_all is_space l \<and> list_all is_space r \<and>
          (trim p = [] \<or> \<not> is_space (hd (trim p)) \<and> \<not> is_space (last (trim p)))"
    by (rule trim_spec)
next
  show "slugParts s = filter (\<lambda>p. p \<noteq> []) (map trim (split_on CHR ''/'' s))"
    by (simp add: slugParts_def)
next
  assume "length (slugParts s) \<noteq> length segs"
  then show "resolveWizardIdentitySelection pj sanitize fs opts st =
      (Inl (Error (segmentCountMessage (length segs) (length (slugParts s)))), st)"
    by (simp add: resolve_with_slug[OF assms] parseIdentitySlug_mismatch)
next
  assume "length (slugParts s) = length segs"
  from parseIdentitySlug_match[OF this] obtain sel where
    "parseIdentitySlug s segs = Inr sel"
    "map sel_value (segments sel) = slugParts s"
    "map sel_id (segments sel) = map seg_id segs"
    "list_all (\<lambda>x. sel_source x = SourceCli) (segments sel)"
    "slug sel = joinWith ''/'' (slugParts s)"
    by blast
  then show "\<exists>sel. resolveWizardIdentitySelection pj sanitize fs opts st = (Inr (Some sel), st) \<and>
               map sel_value (segments sel) = slugParts s \<and>
               map sel_id (segments sel) = map seg_id segs \<and>
               list_all (\<lambda>x. sel_source x = SourceCli) (segments sel) \<and>
               slug sel = joinWith ''/'' (slugParts s)"
    by (intro exI[of _ sel]) (simp add: resolve_with_slug[OF assms])
qed

theorem explicit_slug_resolution_witness:
  "resolveWizardIdentitySelection (joinWith ''/'') trim (\<lambda>dir. None)
     \<lparr>repoRoot = ''/repo'', scenarioId = ''demo'',
      identitySegments = Some [categorySegment, cadenceSegment],
      providedSlug = Some ''maintenance'', providedSegments = None,
      providedSegmentDetails = None, usingExternalAnswers = False, interactive = True\<rparr>
     ([], []) =
     (Inl (Error ''--answers-identity requires 2 segment(s) but received 1.''), ([], [])) \<and>
   (\<exists>sel. resolveWizardIdentitySelection (joinWith ''/'') trim (\<lambda>dir. None)
     \<lparr>repoRoot = ''/repo'', scenarioId = ''demo'',
      identitySegments = Some [categorySegment, cadenceSegment],
      providedSlug = Some ''maintenance/nightly'', providedSegments = None,
      providedSegmentDetails = None, usingExternalAnswers = False, interactive = True\<rparr>
     ([], []) = (Inr (Some sel), ([], [])) \<and>
     map sel_value (segments sel) = [''maintenance'', ''nightly''] \<and>
     slug sel = ''maintenance/nightly'') \<and>
   split_on CHR ''/'' '' maintenance//nightly /'' =
     ['' maintenance'', [], ''nightly '', []] \<and>
   slugParts '' maintenance//nightly /'' = [''maintenance'', ''nightly''] \<and>
   (\<exists>sel. resolveWizardIdentitySelection (joinWith ''/'') trim (\<lambda>dir. None)
     \<lparr>repoRoot = ''/repo'', scenarioId = ''demo'',
      identitySegments = Some [categorySegment, cadenceSegment],
      providedSlug = Some '' maintenance//nightly /'', providedSegments = None,
      providedSegmentDetails = None, usingExternalAnswers = False, interactive = True\<rparr>
     ([], []) = (Inr (Some sel), ([], [])) \<and>
     map sel_value (segments sel) = [''maintenance'', ''nightly''] \<and>
     map sel_id (segments sel) = [''category'', ''cadence''] \<and>
     slug sel = ''maintenance/nightly'') \<and>
   resolveWizardIdentitySelection (joinWith ''/'') trim (\<lambda>dir. None)
     \<lparr>repoRoot = ''/repo'', scenarioId = ''demo'',
      identitySegments = Some [categorySegment, cadenceSegment],
      providedSlug = Some '' / /'', providedSegments = None,
      providedSegmentDetails = None, usingExternalAnswers = False, interactive = True\<rparr>
     ([], []) =
     (Inl (Error ''--answers-identity requires 2 segment(s) but received 0.''), ([], []))"
proof -
  define run where "run = (\<lambda>s. resolveWizardIdentitySelection (joinWith ''/'') trim (\<lambda>dir. None)
     \<lparr>repoRoot = ''/repo'', scenarioId = ''demo'',
      identitySegments = Some [categorySegment, cadenceSegment],
      providedSlug = Some s, providedSegments = None,
      providedSegmentDetails = None, usingExternalAnswers = False, interactive = True\<rparr>
     ([], []))"
  have t: "s \<noteq> [] \<Longrightarrow>
       (length (slugParts s) \<noteq> 2 \<longrightarrow>
          run s = (Inl (Error (segmentCountMessage 2 (length (slugParts s)))), ([], []))) \<and>
       (length (slugParts s) = 2 \<longrightarrow>
          (\<exists>sel. run s = (Inr (Some sel), ([], [])) \<and>
             map sel_value (segments sel) = slugParts s \<and>
             map sel_id (segments sel) = [''category'', ''cadence''] \<and>
             slug sel = joinWith ''/'' (slugParts s)))" for s
    using explicit_slug_resolution
          [of "\<lparr>repoRoot = ''/repo'', scenarioId = ''demo'',
      identitySegments = Some [categorySegment, cadenceSegment],
      providedSlug = Some s, providedSegments = None,
      providedSegmentDetails = None, usingExternalAnswers = False, interactive = True\<rparr>"
              "[categorySegment, cadenceSegment]" s
              "joinWith ''/''" trim "\<lambda>dir. None" "([], [])",
           THEN conjunct2, THEN conjunct2, THEN conjunct2, THEN conjunct2]
    unfolding run_def by (auto simp add: example_segment_ids numeral_2_eq_2)
  have p1: "slugParts ''maintenance'' = [''maintenance'']"
    by (simp add: slugParts_def trim_def is_space_def)
  have p2: "slugParts ''maintenance/nightly'' = [''maintenance'', ''nightly'']"
    by (simp add: slugParts_def trim_def is_space_def)
  have p3: "split_on CHR ''/'' '' maintenance//nightly /'' =
              ['' maintenance'', [], ''nightly '', []]"
    by simp
  have p4: "slugParts '' maintenance//nightly /'' = [''maintenance'', ''nightly'']"
    unfolding slugParts_def p3 by (simp add: trim_def is_space_def)
  have p5: "slugParts '' / /'' = []"
    by (simp add: slugParts_def trim_def is_space_def)
  have m1: "segmentCountMessage 2 (Suc 0) = ''--answers-identity requires 2 segment(s) but received 1.''"
    and m0: "segmentCountMessage 2 0 = ''--answers-identity requires 2 segment(s) but received 0.''"
    by (simp_all add: segmentCountMessage_def string_of_nat.simps)
  have c1: "run ''maintenance'' =
      (Inl (Error ''--answers-identity requires 2 segment(s) but received 1.''), ([], []))"
    using t[of "''maintenance''"] unfolding p1 by (simp add: m1)
  have c2: "\<exists>sel. run ''maintenance/nightly'' = (Inr (Some sel), ([], [])) \<and>
     map sel_value (segments sel) = [''maintenance'', ''nightly''] \<and>
     slug sel = ''maintenance/nightly''"
    using t[of "''maintenance/nightly''"] unfolding p2 by auto
  have c4: "\<exists>sel. run '' maintenance//nightly /'' = (Inr (Some sel), ([], [])) \<and>
     map sel_value (segments sel) = [''maintenance'', ''nightly''] \<and>
     map sel_id (segments sel) = [''category'', ''cadence''] \<and>
     slug sel = ''maintenance/nightly''"
    using t[of "'' maintenance//nightly /''"] unfolding p4 by auto
  have c5: "run '' / /'' =
      (Inl (Error ''--answers-identity requires 2 segment(s) but received 0.''), ([], []))"
    using t[of "'' / /''"] unfolding p5 by (simp add: m0)
  from c1 c2 p3 p4 c4 c5 show ?thesis unfolding run_def by (intro conjI)
qed

section \<open>Prompts, more responses and cancellation\<close>

text \<open>
  Two facts about every prompt flow: a flow that ends without waiting ends the same way
  when more responses follow, leaving them unread; and a flow left waiting at a prompt
  ends with the cancellation error when the next response is the cancel symbol.
\<close>

lemma custom_ext:
  "promptForCustomIdentityValue seg m d (rs, asked) = (r, (rs', asked')) \<Longrightarrow>
   r \<noteq> Inl AwaitingInput \<Longrightarrow>
   promptForCustomIdentityValue seg m d (rs @ ext, asked) = (r, (rs' @ ext, asked'))"
  by (cases rs)
     (auto simp: promptForCustomIdentityValue_def ask_def split: response.splits if_splits)

lemma custom_cancel:
  "promptForCustomIdentityValue seg m d (rs, asked) = (Inl AwaitingInput, st') \<Longrightarrow>
   fst (promptForCustomIdentityValue seg m d (rs @ Cancel # later, asked)) =
     Inl IdentityPromptCancelledError"
  by (cases rs)
     (auto simp: promptForCustomIdentityValue_def ask_def split: response.splits if_splits)

lemma build_not_awaiting:
  "buildWizardIdentitySegmentSelection seg v src md acc \<noteq> Inl AwaitingInput"
  by (auto simp: buildWizardIdentitySegmentSelection_def split: option.splits)

lemma segment_ext:
  assumes "promptForIdentitySegment seg m md d (rs, asked) = (r, (rs', asked'))"
    and "r \<noteq> Inl AwaitingInput"
  shows "promptForIdentitySegment seg m md d (rs @ ext, asked) = (r, (rs' @ ext, asked'))"
proof (cases rs)
  case Nil
  with assms show ?thesis
    by (auto simp: promptForIdentitySegment_def ask_def promptForCustomIdentityValue_def
        split: if_splits)
next
  case (Cons x xs)
  show ?thesis
  proof (cases "seg_options seg \<noteq> None \<and> length (the (seg_options seg)) > 0")
    case True
    show ?thesis
    proof (cases x)
      case Cancel
      with assms Cons True show ?thesis
        by (auto simp: promptForIdentitySegment_def ask_def)
    next
      case (Answer choice)
      show ?thesis
      proof (cases "choice = ''__custom__''")
        case c: True
        obtain cr cst where cu: "promptForCustomIdentityValue seg m d (xs, asked @ [Select (seg_prompt seg)
                     (segmentChoices seg (the (seg_options seg)) d)]) = (cr, cst)"
          by (cases "promptForCustomIdentityValue seg m d (xs, asked @ [Select (seg_prompt seg)
                     (segmentChoices seg (the (seg_options seg)) d)])") auto
        have na: "cr \<noteq> Inl AwaitingInput"
          using assms Cons True Answer c cu
          by (auto simp: promptForIdentitySegment_def ask_def split: sum.splits)
        from custom_ext[of seg m d xs _ cr "fst cst" "snd cst" ext] cu na
        have "promptForCustomIdentityValue seg m d (xs @ ext, asked @ [Select (seg_prompt seg)
                     (segmentChoices seg (the (seg_options seg)) d)]) = (cr, (fst cst @ ext, snd cst))"
          by simp
        with assms Cons True Answer c cu show ?thesis
          by (auto simp: promptForIdentitySegment_def ask_def split: sum.splits)
      next
        case False
        with assms Cons True Answer show ?thesis
          by (auto simp: promptForIdentitySegment_def ask_def)
      qed
    qed
  next
    case False
    show ?thesis
    proof (cases "seg_allowCustom seg")
      case a: True
      obtain cr cst where cu: "promptForCustomIdentityValue seg m d (rs, asked) = (cr, cst)"
        by (cases "promptForCustomIdentityValue seg m d (rs, asked)") auto
      have na: "cr \<noteq> Inl AwaitingInput"
        using assms False a cu
        by (auto simp: promptForIdentitySegment_def split: sum.splits)
      from custom_ext[of seg m d rs asked cr "fst cst" "snd cst" ext] cu na
      have "promptForCustomIdentityValue seg m d (rs @ ext, asked) = (cr, (fst cst @ ext, snd cst))"
        by simp
      with assms False a cu show ?thesis
        by (auto simp: promptForIdentitySegment_def split: sum.splits)
    next
      case b: False
      with assms False show ?thesis
        by (auto simp: promptForIdentitySegment_def)
    qed
  qed
qed

lemma segment_cancel:
  assumes "promptForIdentitySegment seg m md d (rs, asked) = (Inl AwaitingInput, st')"
  shows "fst (promptForIdentitySegment seg m md d (rs @ Cancel # later, asked)) =
           Inl IdentityPromptCancelledError"
proof (cases "seg_options seg \<noteq> None \<and> length (the (seg_options seg)) > 0")
  case True
  show ?thesis
  proof (cases rs)
    case Nil
    with True show ?thesis by (simp add: promptForIdentitySegment_def ask_def)
  next
    case (Cons x xs)
    show ?thesis
    proof (cases x)
      case Cancel
      with assms Cons True show ?thesis
        by (auto simp: promptForIdentitySegment_def ask_def)
    next
      case (Answer choice)
      show ?thesis
      proof (cases "choice = ''__custom__''")
        case c: True
        obtain cr cst where cu: "promptForCustomIdentityValue seg m d (xs, asked @ [Select (seg_prompt seg)
                     (segmentChoices seg (the (seg_options seg)) d)]) = (cr, cst)"
          by (cases "promptForCustomIdentityValue seg m d (xs, asked @ [Select (seg_prompt seg)
                     (segmentChoices seg (the (seg_options seg)) d)])") auto
        have "cr = Inl AwaitingInput"
          using assms Cons True Answer c cu build_not_awaiting
          by (auto simp: promptForIdentitySegment_def ask_def split: sum.splits)
        with cu custom_cancel[of seg m d xs _ cst later]
        have "fst (promptForCustomIdentityValue seg m d (xs @ Cancel # later, asked @ [Select (seg_prompt seg)
                     (segmentChoices seg (the (seg_options seg)) d)])) = Inl IdentityPromptCancelledError"
          by simp
        with Cons True Answer c show ?thesis
          by (auto simp: promptForIdentitySegment_def ask_def split: sum.splits prod.splits)
      next
        case False
        with assms Cons True Answer build_not_awaiting show ?thesis
          by (auto simp: promptForIdentitySegment_def ask_def)
      qed
    qed
  qed
next
  case False
  show ?thesis
  proof (cases "seg_allowCustom seg")
    case a: True
    obtain cr cst where cu: "promptForCustomIdentityValue seg m d (rs, asked) = (cr, cst)"
      by (cases "promptForCustomIdentityValue seg m d (rs, asked)") auto
    have "cr = Inl AwaitingInput"
      using assms False a cu build_not_awaiting
      by (auto simp: promptForIdentitySegment_def split: sum.splits)
    with cu custom_cancel[of seg m d rs asked cst later]
    have "fst (promptForCustomIdentityValue seg m d (rs @ Cancel # later, asked)) =
            Inl IdentityPromptCancelledError"
      by simp
    with False a show ?thesis
      by (auto simp: promptForIdentitySegment_def split: sum.splits prod.splits)
  next
    case b: False
    with assms False show ?thesis
      by (auto simp: promptForIdentitySegment_def)
  qed
qed

lemma promptLoop_ext:
  "promptLoop segs provided mdo defaults sels m (rs, asked) = (r, (rs', asked')) \<Longrightarrow>
   r \<noteq> Inl AwaitingInput \<Longrightarrow>
   promptLoop segs provided mdo defaults sels m (rs @ ext, asked) = (r, (rs' @ ext, asked'))"
proof (induction segs arbitrary: sels m rs asked)
  case Nil
  then show ?case by simp
next
  case (Cons seg rest)
  show ?case
  proof (cases "truthy (lookupOpt provided (seg_id seg))")
    case True
    show ?thesis
    proof (cases "buildWizardIdentitySegmentSelection seg
                (the (lookupOpt provided (seg_id seg))) SourceCli
                (lookupOpt mdo (seg_id seg)) False")
      case (Inl e)
      with Cons.prems(1) True show ?thesis by simp
    next
      case (Inr s)
      with Cons.prems(1) True
      have "promptLoop rest provided mdo defaults (sels @ [s]) (m(seg_id seg \<mapsto> s))
              (rs, asked) = (r, (rs', asked'))"
        by (simp del: fun_upd_apply)
      from Cons.IH[OF this Cons.prems(2)] Inr True show ?thesis by (simp del: fun_upd_apply)
    qed
  next
    case False
    obtain pr prs pasked where p:
      "promptForIdentitySegment seg m (lookupOpt mdo (seg_id seg))
         (lookupOpt defaults (seg_id seg)) (rs, asked) = (pr, (prs, pasked))"
      using prod_cases3 by blast
    show ?thesis
    proof (cases pr)
      case (Inl e)
      with Cons.prems False p have e: "e \<noteq> AwaitingInput" "r = Inl e" "rs' = prs" "asked' = pasked"
        by auto
      from segment_ext[OF p, of ext] Inl e
      have "promptForIdentitySegment seg m (lookupOpt mdo (seg_id seg))
         (lookupOpt defaults (seg_id seg)) (rs @ ext, asked) = (Inl e, (prs @ ext, pasked))"
        by simp
      with False e show ?thesis by simp
    next
      case (Inr s)
      with segment_ext[OF p, of ext]
      have "promptForIdentitySegment seg m (lookupOpt mdo (seg_id seg))
         (lookupOpt defaults (seg_id seg)) (rs @ ext, asked) = (Inr s, (prs @ ext, pasked))"
        by simp
      moreover from Cons.prems(1) False p Inr
      have "promptLoop rest provided mdo defaults (sels @ [s]) (m(seg_id seg \<mapsto> s))
              (prs, pasked) = (r, (rs', asked'))"
        by (simp del: fun_upd_apply)
      from Cons.IH[OF this Cons.prems(2)]
      have "promptLoop rest provided mdo defaults (sels @ [s]) (m(seg_id seg \<mapsto> s))
              (prs @ ext, pasked) = (r, (rs' @ ext, asked'))" .
      ultimately show ?thesis using False by (simp del: fun_upd_apply)
    qed
  qed
qed


lemma promptLoop_cancel:
  "promptLoop segs provided mdo defaults sels m (rs, asked) = (Inl AwaitingInput, st') \<Longrightarrow>
   fst (promptLoop segs provided mdo defaults sels m (rs @ Cancel # later, asked)) =
     Inl IdentityPromptCancelledError"
proof (induction segs arbitrary: sels m rs asked)
  case Nil
  then show ?case by simp
next
  case (Cons seg rest)
  show ?case
  proof (cases "truthy (lookupOpt provided (seg_id seg))")
    case True
    show ?thesis
    proof (cases "buildWizardIdentitySegmentSelection seg
                (the (lookupOpt provided (seg_id seg))) SourceCli
                (lookupOpt mdo (seg_id seg)) False")
      case (Inl e)
      with Cons.prems(1) True build_not_awaiting[of seg _ SourceCli _ False]
      show ?thesis by simp
    next
      case (Inr s)
      with Cons.prems(1) True
      have "promptLoop rest provided mdo defaults (sels @ [s]) (m(seg_id seg \<mapsto> s))
              (rs, asked) = (Inl AwaitingInput, st')"
        by (simp del: fun_upd_apply)
      from Cons.IH[OF this] Inr True show ?thesis by (simp del: fun_upd_apply)
    qed
  next
    case False
    obtain pr prs pasked where p:
      "promptForIdentitySegment seg m (lookupOpt mdo (seg_id seg))
         (lookupOpt defaults (seg_id seg)) (rs, asked) = (pr, (prs, pasked))"
      using prod_cases3 by blast
    show ?thesis
    proof (cases pr)
      case (Inl e)
      with Cons.prems False p have "e = AwaitingInput" by auto
      with Inl p have "promptForIdentitySegment seg m (lookupOpt mdo (seg_id seg))
         (lookupOpt defaults (seg_id seg)) (rs, asked) = (Inl AwaitingInput, (prs, pasked))"
        by simp
      from segment_cancel[OF this, of later] obtain st2 where
        "promptForIdentitySegment seg m (lookupOpt mdo (seg_id seg))
           (lookupOpt defaults (seg_id seg)) (rs @ Cancel # later, asked) =
         (Inl IdentityPromptCancelledError, st2)"
        by (metis prod.collapse)
      with False show ?thesis by simp
    next
      case (Inr s)
      with segment_ext[OF p, of "Cancel # later"]
      have "promptForIdentitySegment seg m (lookupOpt mdo (seg_id seg))
         (lookupOpt defaults (seg_id seg)) (rs @ Cancel # later, asked) =
           (Inr s, (prs @ Cancel # later, pasked))"
        by simp
      moreover from Cons.prems False p Inr
      have "promptLoop rest provided mdo defaults (sels @ [s]) (m(seg_id seg \<mapsto> s))
              (prs, pasked) = (Inl AwaitingInput, st')"
        by (simp del: fun_upd_apply)
      from Cons.IH[OF this]
      have "fst (promptLoop rest provided mdo defaults (sels @ [s]) (m(seg_id seg \<mapsto> s))
              (prs @ Cancel # later, pasked)) = Inl IdentityPromptCancelledError" .
      ultimately show ?thesis using False by (simp del: fun_upd_apply)
    qed
  qed
qed

lemma segments_ext:
  assumes "promptForIdentitySegments segs provided mdo defaults (rs, asked) =
             (r, (rs', asked'))"
    and "r \<noteq> Inl AwaitingInput"
  shows "promptForIdentitySegments segs provided mdo defaults (rs @ ext, asked) =
           (r, (rs' @ ext, asked'))"
proof -
  obtain lr lrs lasked where l:
    "promptLoop segs provided mdo defaults [] Map.empty (rs, asked) = (lr, (lrs, lasked))"
    using prod_cases3 by blast
  from l assms have na: "lr \<noteq> Inl AwaitingInput"
    by (auto simp: promptForIdentitySegments_def split: sum.splits)
  from promptLoop_ext[OF l na, of ext] l assms show ?thesis
    by (auto simp: promptForIdentitySegments_def split: sum.splits)
qed

lemma segments_cancel:
  assumes "promptForIdentitySegments segs provided mdo defaults (rs, asked) =
             (Inl AwaitingInput, st')"
  shows "fst (promptForIdentitySegments segs provided mdo defaults (rs @ Cancel # later, asked)) =
           Inl IdentityPromptCancelledError"
proof -
  from assms have "promptLoop segs provided mdo defaults [] Map.empty (rs, asked) =
      (Inl AwaitingInput, st')"
    by (auto simp: promptForIdentitySegments_def split: prod.splits sum.splits)
  from promptLoop_cancel[OF this, of later] show ?thesis
    by (auto simp: promptForIdentitySegments_def split: prod.splits sum.splits)
qed


lemma existing_cancel:
  "promptForExistingIdentitySelection existing segs mdo rs asked = (Inl AwaitingInput, st') \<Longrightarrow>
   fst (promptForExistingIdentitySelection existing segs mdo (rs @ Cancel # later) asked) =
     Inl IdentityPromptCancelledError"
proof (induction rs arbitrary: asked)
  case Nil
  then show ?case by simp
next
  case (Cons x xs)
  show ?case
  proof (cases x)
    case Cancel
    with Cons.prems show ?thesis by simp
  next
    case (Answer resp)
    show ?thesis
    proof (cases "resp = ''__new__''")
      case True
      with Cons.prems Answer segments_cancel[of segs None mdo None xs _ st' later]
      show ?thesis by (simp add: Let_def)
    next
      case False
      show ?thesis
      proof (cases "find (\<lambda>entry. slug entry = resp) existing")
        case None
        with Cons.prems Answer False Cons.IH[of _ ] show ?thesis by (simp add: Let_def)
      next
        case (Some selected)
        with Cons.prems Answer False
          segments_cancel[of segs None mdo "Some (toIdentitySegmentDefaults selected)" xs _ st' later]
        show ?thesis by (simp add: Let_def)
      qed
    qed
  qed
qed

lemma strategy_cancel:
  "promptForPersistedAnswersStrategy filePath rs asked = (Inl AwaitingInput, st') \<Longrightarrow>
   fst (promptForPersistedAnswersStrategy filePath (rs @ Cancel # later) asked) =
     Inl PersistedAnswersStrategyCancelledError"
proof (induction rs arbitrary: asked)
  case Nil
  then show ?case by simp
next
  case (Cons x xs)
  then show ?case by (auto split: response.splits if_splits)
qed

lemma collect_not_awaiting_files:
  "collectIdentityAnswerFiles pj dir node \<noteq> Inl AwaitingInput"
  "collectEntries pj dir entries \<noteq> Inl AwaitingInput"
  by (induction pj dir node and pj dir entries
      rule: collectIdentityAnswerFiles_collectEntries.induct)
     (auto split: fsnode.splits sum.splits if_splits)

lemma collectLoop_not_awaiting:
  "collectLoop segs files acc \<noteq> Inl AwaitingInput"
  by (induction segs files acc rule: collectLoop.induct)
     (auto simp: readIdentitySelectionSnapshot_def
       split: sum.splits option.splits if_splits file_read.splits)

lemma collectPersisted_not_awaiting:
  "collectPersistedIdentitySelections pj sanitize fs root sid segs \<noteq> Inl AwaitingInput"
  using collect_not_awaiting_files(1) collectLoop_not_awaiting
  by (auto simp: collectPersistedIdentitySelections_def Let_def split: sum.splits if_splits)

lemma sequenceSum_error:
  "sequenceSum xs = Inl e \<Longrightarrow> Inl e \<in> set xs"
  by (induction xs) (auto split: sum.splits)


lemma parse_not_awaiting: "parseIdentitySlug s segs \<noteq> Inl AwaitingInput"
proof
  assume "parseIdentitySlug s segs = Inl AwaitingInput"
  then have "sequenceSum (map (\<lambda>(segment, v).
                buildWizardIdentitySegmentSelection segment v SourceCli None True)
                (zip segs (slugParts s))) = Inl AwaitingInput"
    by (auto simp: parseIdentitySlug_def Let_def split: sum.splits if_splits)
  from sequenceSum_error[OF this] obtain segment v where
    "buildWizardIdentitySegmentSelection segment v SourceCli None True = Inl AwaitingInput"
    by auto
  with build_not_awaiting show False by blast
qed

lemma buildLoop_not_awaiting:
  "buildLoop fm provided pm segs sels missing \<noteq> Inl AwaitingInput"
  using build_not_awaiting
  by (induction segs arbitrary: sels missing) (auto split: sum.splits option.splits)

lemma builder_not_awaiting:
  "buildIdentitySelectionFromSources segs provided pm fallback \<noteq> Inl AwaitingInput"
  using buildLoop_not_awaiting
  by (auto simp: buildIdentitySelectionFromSources_def split: sum.splits prod.splits)

section \<open>The shape of a resolution\<close>

lemma promptFreeI: "x \<noteq> Inl AwaitingInput \<Longrightarrow> (\<And>st. f st = (x, st)) \<Longrightarrow> promptFree f"
  unfolding promptFree_def by blast

lemma fallback_shape:
  "promptFree (resolveWithFallback segs P D pid opts) \<or>
   (interactive opts \<and>
    (\<exists>P' defs. \<forall>st. resolveWithFallback segs P D pid opts st =
        liftSome (promptForIdentitySegments segs P' D defs st)))"
proof (cases "buildIdentitySelectionFromSources segs P D pid")
  case (Inl e)
  with builder_not_awaiting[of segs P D pid]
  have "Inl e \<noteq> (Inl AwaitingInput :: error + WizardIdentitySelection option)"
    by auto
  then have "promptFree (resolveWithFallback segs P D pid opts)"
    by (rule promptFreeI) (simp add: resolveWithFallback_def Inl)
  then show ?thesis ..
next
  case (Inr resolution)
  show ?thesis
  proof (cases "selection resolution")
    case None
    show ?thesis
    proof (cases "usingExternalAnswers opts \<or> \<not> interactive opts")
      case True
      have "promptFree (resolveWithFallback segs P D pid opts)"
        by (rule promptFreeI[of "if usingExternalAnswers opts then Inr None
             else Inl (Error (missingIdentityMessage (scenarioId opts)
                              (missingSegmentIds resolution)))"])
           (use True in \<open>auto simp: resolveWithFallback_def Inr None\<close>)
      then show ?thesis ..
    next
      case False
      then have "\<forall>st. resolveWithFallback segs P D pid opts st =
        liftSome (promptForIdentitySegments segs P D
                     (case pid of Some p \<Rightarrow> Some (toIdentitySegmentDefaults p)
                                | None \<Rightarrow> None) st)"
        by (simp add: resolveWithFallback_def Inr None)
      with False show ?thesis by blast
    qed
  next
    case (Some sel)
    show ?thesis
    proof (cases "pid \<noteq> None \<and> \<not> truthy (providedSlug opts) \<and> \<not> hasKeys P \<and>
                  interactive opts \<and> \<not> usingExternalAnswers opts")
      case True
      then have "\<forall>st. resolveWithFallback segs P D pid opts st =
        liftSome (promptForIdentitySegments segs None D
                              (Some (toIdentitySegmentDefaults (the pid))) st)"
        by (simp add: resolveWithFallback_def Inr Some)
      with True show ?thesis by blast
    next
      case False
      have "promptFree (resolveWithFallback segs P D pid opts)"
        by (rule promptFreeI[of "Inr (Some sel)"])
           (use False in \<open>auto simp: resolveWithFallback_def Inr Some\<close>)
      then show ?thesis ..
    qed
  qed
qed

lemma resolve_shape:
  "promptFree (resolveWizardIdentitySelection pj sanitize fs opts) \<or>
   (interactive opts \<and>
    (\<exists>E segs D. \<forall>st. resolveWizardIdentitySelection pj sanitize fs opts st =
        liftSome (promptForExistingIdentitySelection E segs D (fst st) (snd st)))) \<or>
   (interactive opts \<and>
    (\<exists>segs P D defs. \<forall>st. resolveWizardIdentitySelection pj sanitize fs opts st =
        liftSome (promptForIdentitySegments segs P D defs st)))"
proof -
  define segs where "segs = (case identitySegments opts of None \<Rightarrow> [] | Some xs \<Rightarrow> xs)"
  define P where "P = normalizeIdentitySegmentOverrides (providedSegments opts)"
  define D where "D = normalizeIdentitySegmentMetadata (providedSegmentDetails opts)"
  define scan where "scan = (if usingExternalAnswers opts then Inr None
               else (case collectPersistedIdentitySelections pj sanitize fs (repoRoot opts)
                            (scenarioId opts) segs of
                       Inl e \<Rightarrow> Inl e
                     | Inr found \<Rightarrow> Inr (Some found)))"
  have R: "resolveWizardIdentitySelection pj sanitize fs opts st =
      (if identitySegments opts = None \<or> length segs = 0 then
        (if truthy (providedSlug opts) \<or> hasKeys P \<or> hasKeys D then
           (Inl (Error (noIdentityMessage (scenarioId opts))), st)
         else (Inr None, st))
      else if truthy (providedSlug opts) then
        (case parseIdentitySlug (the (providedSlug opts)) segs of
           Inl e \<Rightarrow> (Inl e, st)
         | Inr sel \<Rightarrow> (Inr (Some sel), st))
      else
        (case scan of
           Inl e \<Rightarrow> (Inl e, st)
         | Inr persistedIdentities \<Rightarrow>
              if persistedIdentities \<noteq> None \<and> length (the persistedIdentities) > 1 \<and>
                 \<not> truthy (providedSlug opts) \<and> \<not> hasKeys P \<and>
                 interactive opts \<and> \<not> usingExternalAnswers opts
              then
                liftSome (promptForExistingIdentitySelection (the persistedIdentities) segs
                            D (fst st) (snd st))
              else resolveWithFallback segs P D
                     (case persistedIdentities of Some [single] \<Rightarrow> Some single | _ \<Rightarrow> None)
                     opts st))" for st
    unfolding resolveWizardIdentitySelection_def Let_def segs_def P_def D_def scan_def
    by (rule refl)
  show ?thesis
  proof (cases "identitySegments opts = None \<or> length segs = 0")
    case True
    have "promptFree (resolveWizardIdentitySelection pj sanitize fs opts)"
      by (rule promptFreeI[of "if truthy (providedSlug opts) \<or> hasKeys P \<or> hasKeys D then
           Inl (Error (noIdentityMessage (scenarioId opts))) else Inr None"])
         (use True in \<open>auto simp: R\<close>)
    then show ?thesis ..
  next
    case noid: False
    show ?thesis
    proof (cases "truthy (providedSlug opts)")
      case True
      have "promptFree (resolveWizardIdentitySelection pj sanitize fs opts)"
        by (rule promptFreeI[of "case parseIdentitySlug (the (providedSlug opts)) segs of
           Inl e \<Rightarrow> Inl e | Inr sel \<Rightarrow> Inr (Some sel)"])
           (use True noid parse_not_awaiting[of "the (providedSlug opts)" segs]
             in \<open>auto simp: R split: sum.splits\<close>)
      then show ?thesis ..
    next
      case slug: False
      show ?thesis
      proof (cases scan)
        case (Inl e)
        then have "e \<noteq> AwaitingInput"
          using collectPersisted_not_awaiting[of pj sanitize fs "repoRoot opts" "scenarioId opts" segs]
          by (auto simp: scan_def split: if_splits sum.splits)
        then have "Inl e \<noteq> (Inl AwaitingInput :: error + WizardIdentitySelection option)"
          by simp
        then have "promptFree (resolveWizardIdentitySelection pj sanitize fs opts)"
          by (rule promptFreeI) (use noid slug Inl in \<open>auto simp: R\<close>)
        then show ?thesis ..
      next
        case (Inr pis)
        show ?thesis
        proof (cases "pis \<noteq> None \<and> length (the pis) > 1 \<and>
                 \<not> truthy (providedSlug opts) \<and> \<not> hasKeys P \<and>
                 interactive opts \<and> \<not> usingExternalAnswers opts")
          case True
          then have "\<forall>st. resolveWizardIdentitySelection pj sanitize fs opts st =
            liftSome (promptForExistingIdentitySelection (the pis) segs D (fst st) (snd st))"
            using noid slug Inr by (auto simp: R)
          with True show ?thesis by blast
        next
          case False
          then have eq: "resolveWizardIdentitySelection pj sanitize fs opts st =
            resolveWithFallback segs P D
              (case pis of Some [single] \<Rightarrow> Some single | _ \<Rightarrow> None) opts st" for st
            using noid slug Inr by (auto simp: R)
          from fallback_shape[of segs P D "case pis of Some [single] \<Rightarrow> Some single | _ \<Rightarrow> None" opts]
          show ?thesis unfolding promptFree_def eq by blast
        qed
      qed
    qed
  qed
qed


lemma liftSome_error: "liftSome r = (Inl e, st') \<Longrightarrow> r = (Inl e, st')"
  by (auto simp: liftSome_def split: prod.splits sum.splits)

lemma liftSome_fst_error: "fst r = Inl e \<Longrightarrow> fst (liftSome r) = Inl e"
  by (auto simp: liftSome_def split: prod.splits sum.splits)

lemma resolve_cancel:
  assumes "resolveWizardIdentitySelection pj sanitize fs opts (rs, asked) =
             (Inl AwaitingInput, st')"
  shows "fst (resolveWizardIdentitySelection pj sanitize fs opts (rs @ Cancel # later, asked)) =
           Inl IdentityPromptCancelledError"
proof -
  from resolve_shape[of pj sanitize fs opts]
  consider (free) "promptFree (resolveWizardIdentitySelection pj sanitize fs opts)"
    | (existing) E segs D where
        "\<forall>st. resolveWizardIdentitySelection pj sanitize fs opts st =
           liftSome (promptForExistingIdentitySelection E segs D (fst st) (snd st))"
    | (segments) segs P D defs where
        "\<forall>st. resolveWizardIdentitySelection pj sanitize fs opts st =
           liftSome (promptForIdentitySegments segs P D defs st)"
    by blast
  then show ?thesis
  proof cases
    case free
    then obtain x where "x \<noteq> Inl AwaitingInput"
      "\<And>st. resolveWizardIdentitySelection pj sanitize fs opts st = (x, st)"
      unfolding promptFree_def by blast
    with assms show ?thesis by simp
  next
    case existing
    with assms have "promptForExistingIdentitySelection E segs D rs asked =
        (Inl AwaitingInput, st')"
      by (auto dest: liftSome_error)
    from existing_cancel[OF this, of later] existing show ?thesis
      by (simp add: liftSome_fst_error)
  next
    case segments
    with assms have "promptForIdentitySegments segs P D defs (rs, asked) =
        (Inl AwaitingInput, st')"
      by (auto dest: liftSome_error)
    from segments_cancel[OF this, of later] segments show ?thesis
      by (simp add: liftSome_fst_error)
  qed
qed

lemma resolve_noninteractive:
  "\<not> interactive opts \<Longrightarrow> promptFree (resolveWizardIdentitySelection pj sanitize fs opts)"
  using resolve_shape[of pj sanitize fs opts] by blast

lemma demo_scan:
  "collectPersistedIdentitySelections (joinWith ''/'') trim storedTree ''/repo'' ''demo''
     [categorySegment, cadenceSegment] =
   Inr [\<lparr>slug = ''maintenance/daily'', segments = [maintenanceSelection, dailySelection]\<rparr>]"
  by (simp add: collectPersistedIdentitySelections_def storedTree_def trim_def is_space_def
      endsWith_def readIdentitySelectionSnapshot_def snapshotOfJson_def storedSnapshot_def
      asRecord_def asString_def asArray_def truthy_def readStoredSegment_def nthOpt_def
      maintenanceSelection_def dailySelection_def categorySegment_def cadenceSegment_def
      upt_rec)

lemma demo_resolve:
  "resolveWizardIdentitySelection (joinWith ''/'') trim storedTree demoOptions st =
     (Inr (Some \<lparr>slug = ''maintenance/daily'',
                 segments = [maintenanceSelection, dailySelection]\<rparr>), st)"
  by (simp add: resolveWizardIdentitySelection_def
      resolveWithFallback_def demoOptions_def demo_scan
      normalizeIdentitySegmentOverrides_def normalizeIdentitySegmentMetadata_def hasKeys_def
      truthy_def buildIdentitySelectionFromSources_def fallbackMapOf_def lookupOpt_def
      example_segment_ids maintenanceSelection_def dailySelection_def)

text \<open>
  C5.  A resolution that is not interactive gives the same outcome (selection, none, or
  error) whatever the operator might type, asks nothing, and so leads to the same
  persistence path: with the same options and the same answer tree, two runs agree.
\<close>

theorem noninteractive_resolution_deterministic:
  assumes "\<not> interactive opts"
  shows "fst (resolveWizardIdentitySelection pj sanitize fs opts st1) =
           fst (resolveWizardIdentitySelection pj sanitize fs opts st2) \<and>
         snd (resolveWizardIdentitySelection pj sanitize fs opts st1) = st1 \<and>
         resolvedPersistencePath pj sanitize fs opts st1 =
           resolvedPersistencePath pj sanitize fs opts st2"
proof -
  from resolve_noninteractive[OF assms, of pj sanitize fs] obtain x where
    x: "\<And>st. resolveWizardIdentitySelection pj sanitize fs opts st = (x, st)"
    unfolding promptFree_def by blast
  show ?thesis by (simp add: x resolvedPersistencePath_def)
qed


theorem noninteractive_resolution_deterministic_witness:
  "\<not> interactive demoOptions \<and>
   fst (resolveWizardIdentitySelection (joinWith ''/'') trim storedTree demoOptions
          ([Answer ''weekly''], [])) =
   fst (resolveWizardIdentitySelection (joinWith ''/'') trim storedTree demoOptions ([], [])) \<and>
   resolvedPersistencePath (joinWith ''/'') trim storedTree demoOptions ([Answer ''weekly''], []) =
     Some ''/repo/.dev-wizard/answers/demo/maintenance/daily.json''"
proof -
  have n: "\<not> interactive demoOptions" by (simp add: demoOptions_def)
  have p: "resolvedPersistencePath (joinWith ''/'') trim storedTree demoOptions ([], []) =
     Some ''/repo/.dev-wizard/answers/demo/maintenance/daily.json''"
    unfolding resolvedPersistencePath_def demo_resolve
    by (simp add: demoOptions_def buildIdentityAnswersPath_def nthOpt_def trim_def
        is_space_def maintenanceSelection_def dailySelection_def)
  from noninteractive_resolution_deterministic
         [OF n, of "joinWith ''/''" trim storedTree "([Answer ''weekly''], [])" "([], [])"]
       n p
  show ?thesis by simp
qed


text \<open>
  C9.  When resolution is left waiting at a prompt (a segment select, a free-text entry,
  or the pick among existing identities) and the next response is the cancel symbol, it
  ends with \<open>IdentityPromptCancelledError\<close>, not with a plain \<open>Error\<close>, and the identity
  stage of the run returns exit code 0.  Likewise, when the stage of the persisted-answers
  strategy is left waiting and the next response is the cancel symbol, the prompt ends with
  \<open>PersistedAnswersStrategyCancelledError\<close> and the stage returns exit code 0.
\<close>

theorem cancellation_exits_cleanly:
  "(resolveWizardIdentitySelection pj sanitize fs opts (rs, asked) = (Inl AwaitingInput, st') \<longrightarrow>
      fst (resolveWizardIdentitySelection pj sanitize fs opts (rs @ Cancel # later, asked)) =
        Inl IdentityPromptCancelledError \<and>
      fst (identityStage pj sanitize fs opts (rs @ Cancel # later, asked)) = ExitCode 0) \<and>
   (strategyStage didLoad tty answersPathUsed implicit filePath (rs, asked) =
      (Thrown AwaitingInput, st'') \<longrightarrow>
      fst (promptForPersistedAnswersStrategy filePath (rs @ Cancel # later) asked) =
        Inl PersistedAnswersStrategyCancelledError \<and>
      fst (strategyStage didLoad tty answersPathUsed implicit filePath
             (rs @ Cancel # later, asked)) = ExitCode 0)"
proof (intro conjI impI)
  assume a: "resolveWizardIdentitySelection pj sanitize fs opts (rs, asked) =
    (Inl AwaitingInput, st')"
  from resolve_cancel[OF a, of later]
  show "fst (resolveWizardIdentitySelection pj sanitize fs opts (rs @ Cancel # later, asked)) =
        Inl IdentityPromptCancelledError" .
  then show "fst (identityStage pj sanitize fs opts (rs @ Cancel # later, asked)) = ExitCode 0"
    by (auto simp: identityStage_def split: prod.splits sum.splits)
next
  assume a: "strategyStage didLoad tty answersPathUsed implicit filePath (rs, asked) =
      (Thrown AwaitingInput, st'')"
  then have c: "didLoad \<and> tty \<and> (\<not> truthy answersPathUsed \<or> implicit)"
    by (auto simp: strategyStage_def split: if_splits)
  with a have "\<exists>st. promptForPersistedAnswersStrategy filePath rs asked = (Inl AwaitingInput, st)"
    by (auto simp: strategyStage_def split: prod.splits sum.splits strategy.splits if_splits)
  then obtain st where "promptForPersistedAnswersStrategy filePath rs asked =
      (Inl AwaitingInput, st)" ..
  from strategy_cancel[OF this, of later]
  show p: "fst (promptForPersistedAnswersStrategy filePath (rs @ Cancel # later) asked) =
        Inl PersistedAnswersStrategyCancelledError" .
  with c show "fst (strategyStage didLoad tty answersPathUsed implicit filePath
             (rs @ Cancel # later, asked)) = ExitCode 0"
    by (auto simp: strategyStage_def split: prod.splits sum.splits)
qed


theorem cancellation_exits_cleanly_witness:
  "fst (resolveWizardIdentitySelection (joinWith ''/'') trim (\<lambda>dir. None) interactiveOptions
          ([Answer ''maintenance''], [])) = Inl AwaitingInput \<and>
   fst (identityStage (joinWith ''/'') trim (\<lambda>dir. None) interactiveOptions
          ([Answer ''maintenance'', Cancel, Answer ''daily''], [])) = ExitCode 0 \<and>
   fst (strategyStage True True None False ''/repo/demo.json'' ([Answer ''later''], [])) =
     Thrown AwaitingInput \<and>
   fst (strategyStage True True None False ''/repo/demo.json''
          ([Answer ''later'', Cancel, Answer ''reuse''], [])) = ExitCode 0"
proof -
  have r: "fst (resolveWizardIdentitySelection (joinWith ''/'') trim (\<lambda>dir. None)
          interactiveOptions ([Answer ''maintenance''], [])) = Inl AwaitingInput"
    by (simp add: resolveWizardIdentitySelection_def resolveWithFallback_def liftSome_def
        interactiveOptions_def collectPersistedIdentitySelections_def
        normalizeIdentitySegmentOverrides_def normalizeIdentitySegmentMetadata_def hasKeys_def
        truthy_def buildIdentitySelectionFromSources_def fallbackMapOf_def lookupOpt_def
        promptForIdentitySegments_def promptForIdentitySegment_def ask_def
        buildWizardIdentitySegmentSelection_def findOption_def withMetadata_def
        categorySegment_def cadenceSegment_def)
  have s: "fst (strategyStage True True None False ''/repo/demo.json''
          ([Answer ''later''], [])) = Thrown AwaitingInput"
    by (simp add: strategyStage_def truthy_def)
  from r have r': "resolveWizardIdentitySelection (joinWith ''/'') trim (\<lambda>dir. None)
          interactiveOptions ([Answer ''maintenance''], []) =
        (Inl AwaitingInput, snd (resolveWizardIdentitySelection (joinWith ''/'') trim
          (\<lambda>dir. None) interactiveOptions ([Answer ''maintenance''], [])))"
    by (simp add: prod_eq_iff)
  from s have s': "strategyStage True True None False ''/repo/demo.json''
          ([Answer ''later''], []) =
        (Thrown AwaitingInput, snd (strategyStage True True None False ''/repo/demo.json''
          ([Answer ''later''], [])))"
    by (simp add: prod_eq_iff)
  from cancellation_exits_cleanly[THEN conjunct1, rule_format, OF r',
         of "[Answer ''daily'']"]
       cancellation_exits_cleanly[THEN conjunct2, rule_format, OF s',
         of "[Answer ''reuse'']"]
       r s
  show ?thesis by simp
qed


section \<open>The path and the alias of an identity\<close>

lemma take_all_but_last:
  "xs \<noteq> [] \<Longrightarrow> take (nat (max (int (length xs) - 1) 0)) xs = butlast xs"
  by (simp add: butlast_conv_take nat_diff_distrib' max_def)

lemma nthOpt_last: "xs \<noteq> [] \<Longrightarrow> nthOpt xs (length xs - 1) = Some (last xs)"
  by (simp add: nthOpt_def last_conv_nth)

lemma path_refines_spec:
  assumes "segments sel \<noteq> []"
  shows "buildIdentityAnswersPath pj sanitize root sid sel =
           identityPathSpec pj sanitize root sid sel"
proof -
  let ?ss = "map (\<lambda>segment. sanitize (sel_value segment)) (segments sel)"
  from assms have ne: "?ss \<noteq> []" by simp
  have b: "butlast ?ss = map sanitize (butlast (map sel_value (segments sel)))"
    by (simp add: map_butlast comp_def)
  have l: "last ?ss = sanitize (last (map sel_value (segments sel)))"
    using assms by (simp add: last_map comp_def)
  show ?thesis
    unfolding buildIdentityAnswersPath_def identityPathSpec_def Let_def
    using take_all_but_last[OF ne] nthOpt_last[OF ne] b l
    by simp
qed

text \<open>
  C6, as the code has it.  For a selection with at least one segment,
  \<open>buildIdentityAnswersPath\<close> joins the base directory \<open>.dev-wizard/answers\<close> under the
  repository root, the sanitized scenario id and the sanitized values but the last as
  directories (the empty ones dropped), and the last sanitized value, or \<open>answers\<close> when
  it is empty, with \<open>.json\<close>; and in a run without an explicit answers path the alias
  is the scenario id, a slash and the slug, and the persistence path is that path.
\<close>

theorem identity_path_and_alias:
  assumes "segments sel \<noteq> []"
  shows "buildIdentityAnswersPath pj sanitize root sid sel =
           identityPathSpec pj sanitize root sid sel \<and>
         answersAliasStage pj sanitize root sid None derivedAlias (Some sel)
           loadPersistedAnswers interactiveTty st =
           (Proceed (sid @ ''/'' @ slug sel,
                     Some (identityPathSpec pj sanitize root sid sel)), st)"
  using path_refines_spec[OF assms, of pj sanitize root sid]
  by (simp add: answersAliasStage_def Let_def)

theorem identity_path_and_alias_witness:
  "segments \<lparr>slug = ''maintenance/daily'',
             segments = [maintenanceSelection, dailySelection]\<rparr> \<noteq> [] \<and>
   buildIdentityAnswersPath (joinWith ''/'') trim ''/repo'' ''demo''
     \<lparr>slug = ''maintenance/daily'', segments = [maintenanceSelection, dailySelection]\<rparr> =
     ''/repo/.dev-wizard/answers/demo/maintenance/daily.json'' \<and>
   answersAliasStage (joinWith ''/'') trim ''/repo'' ''demo'' None [] 
     (Some \<lparr>slug = ''maintenance/daily'',
            segments = [maintenanceSelection, dailySelection]\<rparr>) False True ([], []) =
     (Proceed (''demo/maintenance/daily'',
               Some ''/repo/.dev-wizard/answers/demo/maintenance/daily.json''), ([], []))"
  using identity_path_and_alias
          [of "\<lparr>slug = ''maintenance/daily'',
                segments = [maintenanceSelection, dailySelection]\<rparr>"
              "joinWith ''/''" trim "''/repo''" "''demo''" "[]" False True "([], [])"]
  by (simp add: identityPathSpec_def trim_def is_space_def maintenanceSelection_def
      dailySelection_def)

text \<open>
  C6 as stated fails for the alias: in a run with an explicit answers path the alias is
  taken from the name of that file, also when an identity selection exists.
\<close>

theorem explicit_answers_path_sets_alias:
  "answersAliasStage (joinWith ''/'') trim ''/repo'' ''demo'' (Some ''/tmp/saved.json'')
     ''saved''
     (Some \<lparr>slug = ''maintenance/daily'',
            segments = [maintenanceSelection, dailySelection]\<rparr>) True False ([], []) =
     (Proceed (''saved'', Some ''/tmp/saved.json''), ([], [])) \<and>
   ''saved'' \<noteq> ''demo'' @ ''/'' @
     slug \<lparr>slug = ''maintenance/daily'', segments = [maintenanceSelection, dailySelection]\<rparr>"
  by (simp add: answersAliasStage_def trim_def is_space_def)

section \<open>Reading a snapshot back\<close>

lemma readStoredSegments_all:
  "(\<And>i. i \<in> set idxs \<Longrightarrow> readStoredSegment sv es i = Some (f i)) \<Longrightarrow>
   readStoredSegments sv es idxs = Some (map f idxs)"
  by (induction idxs) simp_all

lemma readStoredSegment_wellFormed:
  assumes "index < length sv" "wellFormedEntry (sv ! index)"
  shows "\<exists>s. readStoredSegment sv es index = Some s \<and>
           sel_id s = (case storedId (sv ! index) of
                         Some i \<Rightarrow> i
                       | None \<Rightarrow> if index < length es then seg_id (es ! index)
                                 else ''segment-'' @ string_of_nat (index + 1))"
  using assms
  by (auto simp: readStoredSegment_def wellFormedEntry_def nthOpt_def storedId_def
      split: option.splits)

lemma wellFormedSnapshot_parts:
  assumes "wellFormedSnapshot n parsed"
  shows "\<exists>root meta identity s entries.
           asRecord (Some parsed) = Some root \<and> asRecord (map_of root ''meta'') = Some meta \<and>
           asRecord (map_of meta ''identity'') = Some identity \<and>
           asString (map_of identity ''slug'') = Some s \<and>
           asArray (map_of identity ''segments'') = Some entries \<and>
           length entries = n \<and> list_all wellFormedEntry entries"
  using assms
  by (auto simp: wellFormedSnapshot_def split: option.splits)

lemma snapshot_read_back:
  assumes wf: "wellFormedSnapshot (length segs) parsed" and ne: "storedSlug parsed \<noteq> []"
  shows "\<exists>sel. snapshotOfJson parsed segs = Some sel \<and> slug sel = storedSlug parsed \<and>
           length (segments sel) = length segs \<and>
           (\<forall>i < length segs.
              sel_id (segments sel ! i) =
                (case storedId (storedEntries parsed ! i) of
                   Some x \<Rightarrow> x
                 | None \<Rightarrow> seg_id (segs ! i)))"
proof -
  from wellFormedSnapshot_parts[OF wf] obtain root meta identity s entries where
    p: "asRecord (Some parsed) = Some root" "asRecord (map_of root ''meta'') = Some meta"
       "asRecord (map_of meta ''identity'') = Some identity"
       "asString (map_of identity ''slug'') = Some s"
       "asArray (map_of identity ''segments'') = Some entries"
       "length entries = length segs" "list_all wellFormedEntry entries"
    by blast
  have ss: "storedSlug parsed = s" and se: "storedEntries parsed = entries"
    using p by (simp_all add: storedSlug_def storedEntries_def)
  define f where "f = (\<lambda>i. the (readStoredSegment entries segs i))"
  have each: "readStoredSegment entries segs i = Some (f i) \<and>
              sel_id (f i) = (case storedId (entries ! i) of Some x \<Rightarrow> x
                              | None \<Rightarrow> seg_id (segs ! i))"
    if "i < length segs" for i
  proof -
    from that p have "i < length entries" "wellFormedEntry (entries ! i)"
      by (simp_all add: list_all_length)
    from readStoredSegment_wellFormed[OF this, of segs] that show ?thesis
      by (auto simp: f_def split: option.splits)
  qed
  then have "readStoredSegments entries segs [0 ..< length segs] =
               Some (map f [0 ..< length segs])"
    by (intro readStoredSegments_all) simp
  with p ne ss have "snapshotOfJson parsed segs =
      Some \<lparr>slug = s, segments = map f [0 ..< length segs]\<rparr>"
    by (simp add: snapshotOfJson_def truthy_def)
  with ss se each show ?thesis by simp
qed

text \<open>
  C10.  A parsed answer file that passes the scanner's checks and stores a non-empty slug
  is not skipped: it is read as a selection with the stored slug and one segment per
  declared segment, and a stored entry without a string \<open>id\<close> takes the id of the declared
  segment at its position.  In the loop body, an entry without a string id at a position
  where no segment is declared would take \<open>segment-\<close> and the position counted from one.
\<close>

theorem snapshot_ids_filled_from_declaration:
  "(wellFormedSnapshot (length segs) parsed \<and> storedSlug parsed \<noteq> [] \<longrightarrow>
      (\<exists>sel. readIdentitySelectionSnapshot (Parsed parsed) segs = Inr (Some sel) \<and>
         slug sel = storedSlug parsed \<and> length (segments sel) = length segs \<and>
         (\<forall>i < length segs.
            sel_id (segments sel ! i) =
              (case storedId (storedEntries parsed ! i) of
                 Some x \<Rightarrow> x
               | None \<Rightarrow> seg_id (segs ! i))))) \<and>
   (index < length sv \<and> wellFormedEntry (sv ! index) \<and> storedId (sv ! index) = None \<longrightarrow>
      (\<exists>s. readStoredSegment sv es index = Some s \<and>
         sel_id s = (if index < length es then seg_id (es ! index)
                     else ''segment-'' @ string_of_nat (index + 1))))"
proof (intro conjI impI)
  assume "wellFormedSnapshot (length segs) parsed \<and> storedSlug parsed \<noteq> []"
  then have "wellFormedSnapshot (length segs) parsed" "storedSlug parsed \<noteq> []" by simp_all
  from snapshot_read_back[OF this]
  show "\<exists>sel. readIdentitySelectionSnapshot (Parsed parsed) segs = Inr (Some sel) \<and>
         slug sel = storedSlug parsed \<and> length (segments sel) = length segs \<and>
         (\<forall>i < length segs.
            sel_id (segments sel ! i) =
              (case storedId (storedEntries parsed ! i) of
                 Some x \<Rightarrow> x
               | None \<Rightarrow> seg_id (segs ! i)))"
    by (simp add: readIdentitySelectionSnapshot_def)
next
  assume a: "index < length sv \<and> wellFormedEntry (sv ! index) \<and> storedId (sv ! index) = None"
  then have "index < length sv" "wellFormedEntry (sv ! index)" by simp_all
  from readStoredSegment_wellFormed[OF this, of es] a
  show "\<exists>s. readStoredSegment sv es index = Some s \<and>
         sel_id s = (if index < length es then seg_id (es ! index)
                     else ''segment-'' @ string_of_nat (index + 1))"
    by simp
qed

theorem snapshot_ids_filled_from_declaration_witness:
  "wellFormedSnapshot (length [cadenceSegment]) anonymousSnapshot \<and>
   storedSlug anonymousSnapshot \<noteq> [] \<and>
   storedId (storedEntries anonymousSnapshot ! 0) = None \<and>
   (\<exists>sel. readIdentitySelectionSnapshot (Parsed anonymousSnapshot) [cadenceSegment] =
            Inr (Some sel) \<and> map sel_id (segments sel) = [''cadence'']) \<and>
   (\<exists>s. readStoredSegment [JNull, JObj [(''value'', JStr ''daily'')]] [cadenceSegment] 1 = Some s \<and>
        sel_id s = ''segment-2'')"
proof -
  have w: "wellFormedSnapshot (length [cadenceSegment]) anonymousSnapshot \<and>
           storedSlug anonymousSnapshot \<noteq> []"
    by (simp add: wellFormedSnapshot_def anonymousSnapshot_def wellFormedEntry_def
        storedSlug_def asRecord_def asString_def asArray_def)
  have i: "storedId (storedEntries anonymousSnapshot ! 0) = None"
    by (simp add: storedId_def storedEntries_def anonymousSnapshot_def asRecord_def
        asString_def asArray_def)
  have e: "(1::nat) < length [JNull, JObj [(''value'', JStr ''daily'')]] \<and>
           wellFormedEntry ([JNull, JObj [(''value'', JStr ''daily'')]] ! 1) \<and>
           storedId ([JNull, JObj [(''value'', JStr ''daily'')]] ! 1) = None"
    by (simp add: wellFormedEntry_def storedId_def asRecord_def asString_def)
  from snapshot_ids_filled_from_declaration
         [THEN conjunct1, rule_format, OF w]
  obtain sel where s: "readIdentitySelectionSnapshot (Parsed anonymousSnapshot) [cadenceSegment] =
       Inr (Some sel)" "length (segments sel) = length [cadenceSegment]"
    "\<forall>i < length [cadenceSegment]. sel_id (segments sel ! i) =
              (case storedId (storedEntries anonymousSnapshot ! i) of
                 Some x \<Rightarrow> x
               | None \<Rightarrow> seg_id ([cadenceSegment] ! i))"
    by blast
  from s(2,3) i have "map sel_id (segments sel) = [''cadence'']"
    by (cases "segments sel") (auto simp: cadenceSegment_def)
  with s(1) have a: "\<exists>sel. readIdentitySelectionSnapshot (Parsed anonymousSnapshot)
       [cadenceSegment] = Inr (Some sel) \<and> map sel_id (segments sel) = [''cadence'']"
    by (intro exI[of _ sel] conjI)
  from snapshot_ids_filled_from_declaration
         [THEN conjunct2, rule_format, OF e, of "[cadenceSegment]"]
  have b: "\<exists>s. readStoredSegment [JNull, JObj [(''value'', JStr ''daily'')]] [cadenceSegment] 1 =
       Some s \<and> sel_id s = ''segment-2''"
    by (simp add: string_of_nat.simps)
  from w i a b show ?thesis by (intro conjI) simp_all
qed

section \<open>The scan\<close>

lemma snapshot_ill_formed_skipped:
  assumes "\<not> wellFormedSnapshot (length segs) parsed"
  shows "snapshotOfJson parsed segs = None"
proof (rule ccontr)
  assume "snapshotOfJson parsed segs \<noteq> None"
  then obtain sel where s: "snapshotOfJson parsed segs = Some sel" by auto
  then obtain root meta identity sl entries where
    p: "asRecord (Some parsed) = Some root" "asRecord (map_of root ''meta'') = Some meta"
       "asRecord (map_of meta ''identity'') = Some identity"
       "asString (map_of identity ''slug'') = Some sl"
       "asArray (map_of identity ''segments'') = Some entries"
       "length entries = length segs"
       "readStoredSegments entries segs [0 ..< length segs] \<noteq> None"
    by (auto simp: snapshotOfJson_def Let_def truthy_def split: option.splits if_splits)
  have all: "readStoredSegments sv es idxs \<noteq> None \<Longrightarrow>
             \<forall>i \<in> set idxs. readStoredSegment sv es i \<noteq> None" for sv es idxs
    by (induction idxs) (auto split: option.splits)
  have "wellFormedEntry (entries ! i)" if "i < length entries" for i
  proof -
    from all[OF p(7)] that p(6) have "readStoredSegment entries segs i \<noteq> None" by simp
    with that show ?thesis
      by (auto simp: readStoredSegment_def wellFormedEntry_def nthOpt_def split: option.splits)
  qed
  then have "list_all wellFormedEntry entries" by (simp add: list_all_length)
  with p have "wellFormedSnapshot (length segs) parsed"
    by (simp add: wellFormedSnapshot_def)
  with assms show False by simp
qed

lemma collectLoop_skip:
  "readIdentitySelectionSnapshot c segs = Inr None \<Longrightarrow>
   collectLoop segs (pre @ (filePath, c) # post) acc = collectLoop segs (pre @ post) acc"
proof (induction pre arbitrary: acc)
  case Nil
  then show ?case by simp
next
  case (Cons x pre)
  obtain fp content where x: "x = (fp, content)" by (cases x)
  show ?case
  proof (cases "readIdentitySelectionSnapshot content segs")
    case (Inl e)
    with x show ?thesis by simp
  next
    case (Inr r)
    with x Cons show ?thesis by (cases r) simp_all
  qed
qed

lemma snapshotsIn_Cons:
  "snapshotsIn segs ((filePath, content) # rest) =
     (case readIdentitySelectionSnapshot content segs of
        Inr (Some sel) \<Rightarrow> [sel] | _ \<Rightarrow> []) @ snapshotsIn segs rest"
  by (simp add: snapshotsIn_def)

lemma collectLoop_first_per_slug:
  "collectLoop segs files acc = Inr sels \<Longrightarrow> distinct (map slug acc) \<Longrightarrow>
   distinct (map slug sels) \<and>
   slug ` set sels = slug ` set acc \<union> slug ` set (snapshotsIn segs files) \<and>
   (\<forall>sel \<in> set sels. sel \<in> set acc \<or>
      (slug sel \<notin> slug ` set acc \<and>
       find (\<lambda>s. slug s = slug sel) (snapshotsIn segs files) = Some sel))"
proof (induction segs files acc rule: collectLoop.induct)
  case (1 segs selections)
  then show ?case by (simp add: snapshotsIn_def)
next
  case (2 segs filePath content rest selections)
  show ?case
  proof (cases "readIdentitySelectionSnapshot content segs")
    case (Inl e)
    with "2.prems" show ?thesis by simp
  next
    case (Inr r)
    show ?thesis
    proof (cases r)
      case None
      with Inr "2.prems" have "collectLoop segs rest selections = Inr sels" by simp
      from "2.IH"(1)[OF Inr None this "2.prems"(2)] Inr None show ?thesis
        by (simp add: snapshotsIn_Cons)
    next
      case (Some sel)
      show ?thesis
      proof (cases "slug sel \<in> set (map slug selections)")
        case True
        with Inr Some "2.prems" have "collectLoop segs rest selections = Inr sels" by simp
        from "2.IH"(2)[OF Inr Some True this "2.prems"(2)] Inr Some True show ?thesis
          by (auto simp: snapshotsIn_Cons)
      next
        case False
        with Inr Some "2.prems" have c: "collectLoop segs rest (selections @ [sel]) = Inr sels"
          by simp
        from False "2.prems"(2) have d: "distinct (map slug (selections @ [sel]))" by simp
        from "2.IH"(3)[OF Inr Some False c d] Inr Some False show ?thesis
          by (auto simp: snapshotsIn_Cons)
      qed
    qed
  qed
qed

lemma stored_snapshot_read:
  "readIdentitySelectionSnapshot (Parsed storedSnapshot) [categorySegment, cadenceSegment] =
     Inr (Some \<lparr>slug = ''maintenance/daily'',
                 segments = [maintenanceSelection, dailySelection]\<rparr>)"
  by (simp add: readIdentitySelectionSnapshot_def snapshotOfJson_def storedSnapshot_def
      asRecord_def asString_def asArray_def truthy_def readStoredSegment_def nthOpt_def
      maintenanceSelection_def dailySelection_def upt_rec)

lemma cluttered_scan:
  "collectPersistedIdentitySelections (joinWith ''/'') trim clutteredTree ''/repo'' ''demo''
     [categorySegment, cadenceSegment] =
   Inr [\<lparr>slug = ''maintenance/daily'', segments = [maintenanceSelection, dailySelection]\<rparr>]"
proof -
  have e: "readIdentitySelectionSnapshot (Parsed (JObj [])) [categorySegment, cadenceSegment] =
      Inr None"
    by (simp add: readIdentitySelectionSnapshot_def snapshotOfJson_def asRecord_def)
  have u: "readIdentitySelectionSnapshot Unparsable [categorySegment, cadenceSegment] = Inr None"
    by (simp add: readIdentitySelectionSnapshot_def)
  show ?thesis
    by (simp add: collectPersistedIdentitySelections_def clutteredTree_def trim_def is_space_def
        endsWith_def stored_snapshot_read e u)
qed

text \<open>
  C4.  The scan returns the empty list when nothing is found at the scenario directory.
  A file that does not parse, and a parsed file that is not an object with a
  \<open>meta.identity\<close> object holding a string slug and an array of segments of the declared
  length whose entries are objects with a string value, is read as no snapshot, and a
  file read as no snapshot changes nothing in the result of the loop over the files.
  A scan that returns lists selections of pairwise distinct slugs, one for each slug
  among the snapshots of the files, each the first snapshot with its slug in the order
  of traversal.
\<close>

theorem scan_skips_and_deduplicates:
  "(fs (pj [root, ''.dev-wizard'', ''answers'', sanitize sid]) = None \<longrightarrow>
      collectPersistedIdentitySelections pj sanitize fs root sid segs = Inr []) \<and>
   readIdentitySelectionSnapshot Unparsable segs = Inr None \<and>
   (\<not> wellFormedSnapshot (length segs) parsed \<longrightarrow>
      readIdentitySelectionSnapshot (Parsed parsed) segs = Inr None) \<and>
   (readIdentitySelectionSnapshot c segs = Inr None \<longrightarrow>
      collectLoop segs (pre @ (filePath, c) # post) [] = collectLoop segs (pre @ post) []) \<and>
   (segs \<noteq> [] \<and> collectPersistedIdentitySelections pj sanitize fs root sid segs = Inr sels \<longrightarrow>
      (\<exists>files.
         collectIdentityAnswerFiles pj (pj [root, ''.dev-wizard'', ''answers'', sanitize sid])
           (fs (pj [root, ''.dev-wizard'', ''answers'', sanitize sid])) = Inr files \<and>
         distinct (map slug sels) \<and>
         slug ` set sels = slug ` set (snapshotsIn segs files) \<and>
         (\<forall>sel \<in> set sels.
            find (\<lambda>s. slug s = slug sel) (snapshotsIn segs files) = Some sel)))"
proof (intro conjI impI)
  assume "fs (pj [root, ''.dev-wizard'', ''answers'', sanitize sid]) = None"
  then show "collectPersistedIdentitySelections pj sanitize fs root sid segs = Inr []"
    by (simp add: collectPersistedIdentitySelections_def)
next
  show "readIdentitySelectionSnapshot Unparsable segs = Inr None"
    by (simp add: readIdentitySelectionSnapshot_def)
next
  assume "\<not> wellFormedSnapshot (length segs) parsed"
  then show "readIdentitySelectionSnapshot (Parsed parsed) segs = Inr None"
    by (simp add: readIdentitySelectionSnapshot_def snapshot_ill_formed_skipped)
next
  assume "readIdentitySelectionSnapshot c segs = Inr None"
  then show "collectLoop segs (pre @ (filePath, c) # post) [] = collectLoop segs (pre @ post) []"
    by (rule collectLoop_skip)
next
  let ?dir = "pj [root, ''.dev-wizard'', ''answers'', sanitize sid]"
  assume a: "segs \<noteq> [] \<and>
    collectPersistedIdentitySelections pj sanitize fs root sid segs = Inr sels"
  then obtain files where f: "collectIdentityAnswerFiles pj ?dir (fs ?dir) = Inr files"
    by (auto simp: collectPersistedIdentitySelections_def Let_def split: sum.splits)
  have l: "collectLoop segs files [] = Inr sels"
  proof (cases files)
    case Nil
    with a f show ?thesis by (auto simp: collectPersistedIdentitySelections_def Let_def)
  next
    case (Cons x xs)
    with a f show ?thesis by (auto simp: collectPersistedIdentitySelections_def Let_def)
  qed
  from collectLoop_first_per_slug[OF l] f
  show "\<exists>files. collectIdentityAnswerFiles pj ?dir (fs ?dir) = Inr files \<and>
         distinct (map slug sels) \<and>
         slug ` set sels = slug ` set (snapshotsIn segs files) \<and>
         (\<forall>sel \<in> set sels.
            find (\<lambda>s. slug s = slug sel) (snapshotsIn segs files) = Some sel)"
    by (intro exI[of _ files]) simp
qed

theorem scan_skips_and_deduplicates_witness:
  "collectPersistedIdentitySelections (joinWith ''/'') trim (\<lambda>dir. None) ''/repo'' ''demo''
     [categorySegment, cadenceSegment] = Inr [] \<and>
   \<not> wellFormedSnapshot (length [categorySegment, cadenceSegment]) (JObj []) \<and>
   readIdentitySelectionSnapshot (Parsed (JObj [])) [categorySegment, cadenceSegment] =
     Inr None \<and>
   collectLoop [categorySegment, cadenceSegment]
     ([] @ (''broken.json'', Unparsable) # [(''daily.json'', Parsed storedSnapshot)]) [] =
   collectLoop [categorySegment, cadenceSegment]
     ([] @ [(''daily.json'', Parsed storedSnapshot)]) [] \<and>
   collectPersistedIdentitySelections (joinWith ''/'') trim clutteredTree ''/repo'' ''demo''
     [categorySegment, cadenceSegment] =
   Inr [\<lparr>slug = ''maintenance/daily'', segments = [maintenanceSelection, dailySelection]\<rparr>] \<and>
   distinct (map slug
     [\<lparr>slug = ''maintenance/daily'', segments = [maintenanceSelection, dailySelection]\<rparr>])"
proof -
  have n: "\<not> wellFormedSnapshot (length [categorySegment, cadenceSegment]) (JObj [])"
    by (simp add: wellFormedSnapshot_def asRecord_def)
  have u: "readIdentitySelectionSnapshot Unparsable [categorySegment, cadenceSegment] = Inr None"
    by (simp add: readIdentitySelectionSnapshot_def)
  have s: "[categorySegment, cadenceSegment] \<noteq> [] \<and>
    collectPersistedIdentitySelections (joinWith ''/'') trim clutteredTree ''/repo'' ''demo''
     [categorySegment, cadenceSegment] =
    Inr [\<lparr>slug = ''maintenance/daily'', segments = [maintenanceSelection, dailySelection]\<rparr>]"
    by (simp add: cluttered_scan)
  note t = scan_skips_and_deduplicates
    [of "\<lambda>dir. None" "joinWith ''/''" "''/repo''" trim "''demo''"
        "[categorySegment, cadenceSegment]" "JObj []" Unparsable "[]" "''broken.json''"
        "[(''daily.json'', Parsed storedSnapshot)]"]
  note t2 = scan_skips_and_deduplicates
    [of clutteredTree "joinWith ''/''" "''/repo''" trim "''demo''"
        "[categorySegment, cadenceSegment]" _ _ _ _ _
        "[\<lparr>slug = ''maintenance/daily'', segments = [maintenanceSelection, dailySelection]\<rparr>]"]
  from t[THEN conjunct1, rule_format, OF refl]
  have a: "collectPersistedIdentitySelections (joinWith ''/'') trim (\<lambda>dir. None) ''/repo''
     ''demo'' [categorySegment, cadenceSegment] = Inr []" .
  from t[THEN conjunct2, THEN conjunct2, THEN conjunct1, rule_format, OF n]
  have b: "readIdentitySelectionSnapshot (Parsed (JObj [])) [categorySegment, cadenceSegment] =
     Inr None" .
  from t[THEN conjunct2, THEN conjunct2, THEN conjunct2, THEN conjunct1, rule_format, OF u]
  have c: "collectLoop [categorySegment, cadenceSegment]
     ([] @ (''broken.json'', Unparsable) # [(''daily.json'', Parsed storedSnapshot)]) [] =
   collectLoop [categorySegment, cadenceSegment]
     ([] @ [(''daily.json'', Parsed storedSnapshot)]) []" .
  from t2[THEN conjunct2, THEN conjunct2, THEN conjunct2, THEN conjunct2, rule_format, OF s]
  have d: "distinct (map slug
     [\<lparr>slug = ''maintenance/daily'', segments = [maintenanceSelection, dailySelection]\<rparr>])"
    by auto
  from a n b c s d show ?thesis by (intro conjI) simp_all
qed


section \<open>The pre-fill of the free-text prompt\<close>

lemma ident_not_space: "is_ident_char c \<Longrightarrow> \<not> is_space c"
  by (auto simp: is_ident_char_def is_space_def Let_def)

lemma space_not_ident: "is_space c \<Longrightarrow> \<not> is_ident_char c"
  using ident_not_space by blast

lemma brace_classes:
  "\<not> is_space CHR ''}''" "\<not> is_ident_char CHR ''}''"
  by (simp_all add: is_space_def is_ident_char_def)

lemma spaces_then_close:
  assumes "list_all is_space after"
  shows "dropWhile is_space (after @ CHR ''}'' # CHR ''}'' # rest) = CHR ''}'' # CHR ''}'' # rest"
  using assms brace_classes(1)
  by (simp add: list_all_iff)

lemma ident_then_rest:
  assumes "list_all is_ident_char ident" "list_all is_space after"
  shows "takeWhile is_ident_char (ident @ after @ CHR ''}'' # CHR ''}'' # rest) = ident"
    and "dropWhile is_ident_char (ident @ after @ CHR ''}'' # CHR ''}'' # rest) =
           after @ CHR ''}'' # CHR ''}'' # rest"
proof -
  have h: "takeWhile is_ident_char (after @ CHR ''}'' # CHR ''}'' # rest) = []"
    using assms(2) brace_classes(2) space_not_ident
    by (cases after) (simp_all)
  from assms(1) h show "takeWhile is_ident_char (ident @ after @ CHR ''}'' # CHR ''}'' # rest) = ident"
    by (simp add: list_all_iff)
  have d: "dropWhile is_ident_char (after @ CHR ''}'' # CHR ''}'' # rest) =
      after @ CHR ''}'' # CHR ''}'' # rest"
    using assms(2) brace_classes(2) space_not_ident
    by (cases after) (simp_all)
  from assms(1) d show "dropWhile is_ident_char (ident @ after @ CHR ''}'' # CHR ''}'' # rest) =
           after @ CHR ''}'' # CHR ''}'' # rest"
    by (simp add: list_all_iff)
qed

lemma spaces_then_ident:
  assumes "list_all is_space before" "ident \<noteq> []" "list_all is_ident_char ident"
  shows "dropWhile is_space (before @ ident @ tail) = ident @ tail"
proof -
  from assms(2,3) have "dropWhile is_space (ident @ tail) = ident @ tail"
    using ident_not_space by (cases ident) simp_all
  with assms(1) show ?thesis by (simp add: list_all_iff)
qed

lemma match_complete:
  assumes "wellFormedPlaceholder before ident after"
  shows "matchPlaceholder (pieceText (Placeholder before ident after) @ rest) =
           Some (ident, rest)"
proof -
  from assms have w: "ident \<noteq> []" "list_all is_ident_char ident" "list_all is_space before"
    "list_all is_space after" by (simp_all add: wellFormedPlaceholder_def)
  have 1: "dropWhile is_space (before @ ident @ after @ CHR ''}'' # CHR ''}'' # rest) =
      ident @ after @ CHR ''}'' # CHR ''}'' # rest"
    using spaces_then_ident[OF w(3,1,2)] by simp
  show ?thesis
    using w(1)
    by (simp add: matchPlaceholder_def 1 ident_then_rest[OF w(2,4)] spaces_then_close[OF w(4)])
qed

lemma match_sound:
  assumes "matchPlaceholder u = Some (ident, rest)"
  shows "\<exists>before after. wellFormedPlaceholder before ident after \<and>
           u = pieceText (Placeholder before ident after) @ rest"
proof -
  from assms obtain r where u: "u = CHR ''{'' # CHR ''{'' # r"
    by (auto simp: matchPlaceholder_def split: list.splits if_splits)
  let ?r1 = "dropWhile is_space r"
  let ?mid = "dropWhile is_ident_char ?r1"
  from assms u have i: "ident = takeWhile is_ident_char ?r1" "ident \<noteq> []"
    and c: "dropWhile is_space ?mid = CHR ''}'' # CHR ''}'' # rest"
    by (auto simp: matchPlaceholder_def Let_def split: list.splits if_splits)
  let ?before = "takeWhile is_space r"
  let ?after = "takeWhile is_space ?mid"
  have "r = ?before @ ?r1" by simp
  also have "?r1 = ident @ ?mid" using i(1) by simp
  also have "?mid = ?after @ dropWhile is_space ?mid" by simp
  finally have "r = ?before @ ident @ ?after @ CHR ''}'' # CHR ''}'' # rest"
    using c by simp
  moreover have "wellFormedPlaceholder ?before ident ?after"
    using i by (auto simp: wellFormedPlaceholder_def list_all_iff dest: set_takeWhileD)
  ultimately show ?thesis using u
    by (intro exI[of _ ?before] exI[of _ ?after]) simp
qed

lemma placeholderAt_iff: "placeholderAt u = (matchPlaceholder u \<noteq> None)"
proof
  assume "placeholderAt u"
  then show "matchPlaceholder u \<noteq> None"
    unfolding placeholderAt_def using match_complete by fastforce
next
  assume "matchPlaceholder u \<noteq> None"
  then obtain ident rest where "matchPlaceholder u = Some (ident, rest)" by auto
  from match_sound[OF this] show "placeholderAt u"
    unfolding placeholderAt_def by blast
qed

lemma replace_unmatched:
  "\<forall>i<length s. matchPlaceholder (drop i (s @ rest)) = None \<Longrightarrow>
   replacePlaceholders f (s @ rest) = s @ replacePlaceholders f rest"
proof (induction s)
  case Nil
  then show ?case by simp
next
  case (Cons c cs)
  from Cons.prems have 0: "matchPlaceholder (c # cs @ rest) = None" by force
  have "\<forall>i<length cs. matchPlaceholder (drop i (cs @ rest)) = None"
  proof (intro allI impI)
    fix i assume "i < length cs"
    then have "Suc i < length (c # cs)" by simp
    with Cons.prems have "matchPlaceholder (drop (Suc i) ((c # cs) @ rest)) = None" by blast
    then show "matchPlaceholder (drop i (cs @ rest)) = None" by simp
  qed
  from Cons.IH[OF this] 0 show ?case by simp
qed

lemma replace_template:
  "wellFormedTemplate pieces \<Longrightarrow>
   replacePlaceholders
     (\<lambda>segmentId. case selectionMap segmentId of Some sel \<Rightarrow> sel_value sel | None \<Rightarrow> [])
     (templateText pieces) =
   concat (map (pieceValue selectionMap) pieces)"
proof (induction pieces rule: wellFormedTemplate.induct)
  case 1
  then show ?case by (simp add: templateText_def)
next
  case (2 s pieces)
  let ?f = "\<lambda>segmentId. case selectionMap segmentId of Some sel \<Rightarrow> sel_value sel | None \<Rightarrow> []"
  from 2(2) have w: "wellFormedTemplate pieces"
    and la: "list_all (\<lambda>i. \<not> placeholderAt (drop i (s @ templateText pieces)))
               [0 ..< length s]"
    by (simp_all only: wellFormedTemplate.simps)
  have u: "\<forall>i<length s. matchPlaceholder (drop i (s @ templateText pieces)) = None"
  proof (intro allI impI)
    fix i assume "i < length s"
    then have "i \<in> set [0 ..< length s]" by simp
    with la have "\<not> placeholderAt (drop i (s @ templateText pieces))"
      unfolding list_all_iff by blast
    then show "matchPlaceholder (drop i (s @ templateText pieces)) = None"
      unfolding placeholderAt_iff by blast
  qed
  have "templateText (Literal s # pieces) = s @ templateText pieces"
    by (simp add: templateText_def)
  with replace_unmatched[OF u, of ?f] 2(1)[OF w] show ?case by simp
next
  case (3 before ident after pieces)
  let ?f = "\<lambda>segmentId. case selectionMap segmentId of Some sel \<Rightarrow> sel_value sel | None \<Rightarrow> []"
  from 3 have p: "wellFormedPlaceholder before ident after" and w: "wellFormedTemplate pieces"
    by simp_all
  let ?rest = "templateText pieces"
  let ?t = "CHR ''{'' # before @ ident @ after @ ''}}'' @ ?rest"
  have e: "templateText (Placeholder before ident after # pieces) = CHR ''{'' # ?t"
    by (simp add: templateText_def)
  from match_complete[OF p, of ?rest]
  have "matchPlaceholder (CHR ''{'' # ?t) = Some (ident, ?rest)" by simp
  then have "replacePlaceholders ?f (CHR ''{'' # ?t) = ?f ident @ replacePlaceholders ?f ?rest"
    by (simp only: replacePlaceholders.simps option.case prod.case)
  with 3(1)[OF w] show ?case unfolding e by simp
qed

lemma template_decomposition:
  "\<exists>pieces. templateText pieces = t \<and> wellFormedTemplate pieces"
proof (induction "id :: string \<Rightarrow> string" t rule: replacePlaceholders.induct)
  case 1
  show ?case by (intro exI[of _ "[]"]) (simp add: templateText_def)
next
  case (2 c cs)
  show ?case
  proof (cases "matchPlaceholder (c # cs)")
    case None
    from 2(1)[OF None] obtain pieces where
      p: "templateText pieces = cs" "wellFormedTemplate pieces" by blast
    from None p show ?thesis
      by (intro exI[of _ "Literal [c] # pieces"]) (simp add: templateText_def placeholderAt_iff)
  next
    case (Some m)
    obtain ident rest where m: "m = (ident, rest)" by (cases m)
    from 2(2)[OF Some m[symmetric]] obtain pieces where
      p: "templateText pieces = rest" "wellFormedTemplate pieces" by blast
    from match_sound[OF Some[unfolded m]] obtain before after where
      w: "wellFormedPlaceholder before ident after"
         "c # cs = pieceText (Placeholder before ident after) @ rest" by blast
    with p show ?thesis
      by (intro exI[of _ "Placeholder before ident after # pieces"]) (simp add: templateText_def)
  qed
qed

lemma empty_template_values:
  "wellFormedTemplate pieces \<Longrightarrow> templateText pieces = [] \<Longrightarrow>
   concat (map (pieceValue selectionMap) pieces) = []"
proof (induction pieces)
  case Nil
  then show ?case by simp
next
  case (Cons p pieces)
  then show ?case by (cases p) (simp_all add: templateText_def)
qed

lemma trim_empty: "trim [] = []"
  by (simp add: trim_def)

lemma prefill_renders:
  assumes "wellFormedTemplate pieces"
    and "seg_defaultValue segment = Some (templateText pieces)"
    and "\<not> truthy initialValueOverride"
  shows "customInitialValue segment selectionMap initialValueOverride =
           prefillOf selectionMap pieces"
proof (cases "templateText pieces = []")
  case True
  have "concat (map (pieceValue selectionMap) pieces) = []"
    by (rule empty_template_values[OF assms(1) True])
  then have "trim (concat (map (pieceValue selectionMap) pieces)) = []"
    by (simp only: trim_empty)
  with assms True show ?thesis
    by (simp add: customInitialValue_def truthy_def prefillOf_def)
next
  case False
  with assms replace_template[OF assms(1), of selectionMap] show ?thesis
    by (simp add: customInitialValue_def truthy_def renderIdentityDefaultTemplate_def Let_def
        prefillOf_def)
qed


lemma resolvedSibling_Nil: "resolvedSibling [] = Map.empty"
  by (rule ext) (simp add: resolvedSibling_def)

lemma resolvedSibling_snoc:
  "resolvedSibling (sels @ [s]) = (resolvedSibling sels)(sel_id s \<mapsto> s)"
  by (rule ext) (simp add: resolvedSibling_def)

lemma ask_log: "snd (snd (ask req st)) = snd st @ [req]"
  by (simp add: ask_def split: list.splits)

lemma custom_log:
  "snd (snd (promptForCustomIdentityValue segment selectionMap initialValueOverride st)) =
     snd st @ [Text (seg_prompt segment) (seg_placeholder segment)
                 (customInitialValue segment selectionMap initialValueOverride)]"
  by (cases st; cases "fst st")
     (auto simp: promptForCustomIdentityValue_def ask_def split: response.splits)

lemma segment_prompt_id:
  assumes "promptForIdentitySegment segment M mdv d st = (Inr s, st')"
  shows "sel_id s = seg_id segment"
proof -
  from assms obtain v src au where
    "buildWizardIdentitySegmentSelection segment v src mdv au = Inr s"
    unfolding promptForIdentitySegment_def
    by (auto split: if_splits prod.splits option.splits response.splits sum.splits)
  then show ?thesis by (auto dest: build_segment_Inr)
qed

lemma segment_text_log:
  assumes "seg_allowCustom segment" "seg_options segment = None \<or> seg_options segment = Some []"
  shows "snd (snd (promptForIdentitySegment segment M mdv d st)) =
           snd st @ [Text (seg_prompt segment) (seg_placeholder segment)
                       (customInitialValue segment M d)]"
proof -
  obtain r st2 where c: "promptForCustomIdentityValue segment M d st = (r, st2)"
    by (cases "promptForCustomIdentityValue segment M d st")
  with custom_log[of segment M d st] have l: "snd st2 = snd st @
      [Text (seg_prompt segment) (seg_placeholder segment) (customInitialValue segment M d)]"
    by simp
  from assms c have "snd (promptForIdentitySegment segment M mdv d st) = st2"
    by (auto simp: promptForIdentitySegment_def split: sum.splits)
  with l show ?thesis by simp
qed

lemma segment_select_custom_log:
  assumes "seg_options segment = Some opts" "opts \<noteq> []" "fst st = Answer ''__custom__'' # rs"
  shows "snd (snd (promptForIdentitySegment segment M mdv d st)) =
           snd st @ [Select (seg_prompt segment) (segmentChoices segment opts d),
                     Text (seg_prompt segment) (seg_placeholder segment)
                       (customInitialValue segment M d)]"
proof -
  let ?sel = "Select (seg_prompt segment) (segmentChoices segment opts d)"
  let ?st1 = "(rs, snd st @ [?sel])"
  have a: "ask ?sel st = (Some (Answer ''__custom__''), ?st1)"
    using assms(3) by (simp add: ask_def)
  obtain r st2 where c: "promptForCustomIdentityValue segment M d ?st1 = (r, st2)"
    by (cases "promptForCustomIdentityValue segment M d ?st1")
  with custom_log[of segment M d ?st1] have l: "snd st2 = snd st @
      [?sel, Text (seg_prompt segment) (seg_placeholder segment) (customInitialValue segment M d)]"
    by simp
  from assms(1,2) a c have "snd (promptForIdentitySegment segment M mdv d st) = st2"
    by (auto simp: promptForIdentitySegment_def split: sum.splits)
  with l show ?thesis by simp
qed

lemma segment_log_ext:
  "\<exists>later. snd (snd (promptForIdentitySegment segment M mdv d st)) = snd st @ later"
proof (cases "seg_options segment \<noteq> None \<and> length (the (seg_options segment)) > 0")
  case True
  let ?sel = "Select (seg_prompt segment) (segmentChoices segment (the (seg_options segment)) d)"
  obtain resp st1 where a: "ask ?sel st = (resp, st1)" by (cases "ask ?sel st")
  with ask_log[of ?sel st] have l1: "snd st1 = snd st @ [?sel]" by simp
  obtain r st2 where c: "promptForCustomIdentityValue segment M d st1 = (r, st2)"
    by (cases "promptForCustomIdentityValue segment M d st1")
  with custom_log[of segment M d st1] l1 have l2: "\<exists>later. snd st2 = snd st @ later" by simp
  from True a c
  have "snd (promptForIdentitySegment segment M mdv d st) = st1 \<or>
        snd (promptForIdentitySegment segment M mdv d st) = st2"
    by (auto simp: promptForIdentitySegment_def
        split: option.splits response.splits sum.splits)
  with l1 l2 show ?thesis by auto
next
  case False
  show ?thesis
  proof (cases "seg_allowCustom segment")
    case True
    from False have "seg_options segment = None \<or> seg_options segment = Some []"
      by (cases "seg_options segment") auto
    from segment_text_log[OF True this, of M mdv d st] show ?thesis by auto
  next
    case False2: False
    have "promptForIdentitySegment segment M mdv d st =
            (Inl (Error (mustDefineOptionsMessage segment)), st)"
      unfolding promptForIdentitySegment_def
      by (simp only: False False2 if_False if_True not_False_eq_True)
    then show ?thesis by simp
  qed
qed

lemma promptLoop_log_ext:
  "\<exists>later. snd (snd (promptLoop segs provided md defaults sels M st)) = snd st @ later"
proof (induction segs arbitrary: sels M st)
  case Nil
  then show ?case by simp
next
  case (Cons seg rest)
  show ?case
  proof (cases "truthy (lookupOpt provided (seg_id seg))")
    case True
    show ?thesis
    proof (cases "buildWizardIdentitySegmentSelection seg
                (the (lookupOpt provided (seg_id seg))) SourceCli
                (lookupOpt md (seg_id seg)) False")
      case (Inl e)
      with True show ?thesis by simp
    next
      case (Inr s)
      with True Cons.IH[of "sels @ [s]" "M(seg_id seg \<mapsto> s)" st] show ?thesis
        by (simp del: fun_upd_apply)
    qed
  next
    case False
    obtain pr st' where p:
      "promptForIdentitySegment seg M (lookupOpt md (seg_id seg))
         (lookupOpt defaults (seg_id seg)) st = (pr, st')"
      by (cases "promptForIdentitySegment seg M (lookupOpt md (seg_id seg))
         (lookupOpt defaults (seg_id seg)) st")
    with segment_log_ext[of seg M "lookupOpt md (seg_id seg)" "lookupOpt defaults (seg_id seg)" st]
    obtain l1 where l1: "snd st' = snd st @ l1" by auto
    show ?thesis
    proof (cases pr)
      case (Inl e)
      with False p l1 show ?thesis by simp
    next
      case (Inr s)
      from Cons.IH[of "sels @ [s]" "M(seg_id seg \<mapsto> s)" st'] obtain l2 where
        "snd (snd (promptLoop rest provided md defaults (sels @ [s]) (M(seg_id seg \<mapsto> s)) st')) =
           snd st' @ l2" by blast
      with Inr False p l1 show ?thesis by (simp del: fun_upd_apply)
    qed
  qed
qed

lemma promptLoop_step_log:
  assumes "\<not> truthy (lookupOpt provided (seg_id segment))"
  shows "\<exists>later. snd (snd (promptLoop (segment # post) provided md defaults sels M st)) =
           snd (snd (promptForIdentitySegment segment M (lookupOpt md (seg_id segment))
                       (lookupOpt defaults (seg_id segment)) st)) @ later"
proof -
  obtain pr st' where p:
    "promptForIdentitySegment segment M (lookupOpt md (seg_id segment))
       (lookupOpt defaults (seg_id segment)) st = (pr, st')"
    by (cases "promptForIdentitySegment segment M (lookupOpt md (seg_id segment))
       (lookupOpt defaults (seg_id segment)) st")
  show ?thesis
  proof (cases pr)
    case (Inl e)
    with assms p show ?thesis by simp
  next
    case (Inr s)
    from promptLoop_log_ext[of post provided md defaults "sels @ [s]"
        "M(seg_id segment \<mapsto> s)" st'] obtain l2 where
      "snd (snd (promptLoop post provided md defaults (sels @ [s]) (M(seg_id segment \<mapsto> s)) st')) =
         snd st' @ l2" by blast
    with Inr assms p show ?thesis by (simp del: fun_upd_apply)
  qed
qed

lemma promptLoop_append:
  "promptLoop pre provided md defaults sels0 (resolvedSibling sels0) st = (Inr sels, st1) \<Longrightarrow>
   promptLoop (pre @ post) provided md defaults sels0 (resolvedSibling sels0) st =
     promptLoop post provided md defaults sels (resolvedSibling sels) st1 \<and>
   map sel_id sels = map sel_id sels0 @ map seg_id pre"
proof (induction pre arbitrary: sels0 st)
  case Nil
  then show ?case by simp
next
  case (Cons seg rest)
  show ?case
  proof (cases "truthy (lookupOpt provided (seg_id seg))")
    case True
    show ?thesis
    proof (cases "buildWizardIdentitySegmentSelection seg
                (the (lookupOpt provided (seg_id seg))) SourceCli
                (lookupOpt md (seg_id seg)) False")
      case (Inl e)
      with Cons.prems True show ?thesis by simp
    next
      case (Inr s)
      then have i: "sel_id s = seg_id seg" by (auto dest: build_segment_Inr)
      then have m: "(resolvedSibling sels0)(seg_id seg \<mapsto> s) = resolvedSibling (sels0 @ [s])"
        by (simp only: resolvedSibling_snoc)
      from Cons.prems True Inr
      have "promptLoop rest provided md defaults (sels0 @ [s]) (resolvedSibling (sels0 @ [s])) st =
              (Inr sels, st1)"
        unfolding m[symmetric] by (simp del: fun_upd_apply)
      from Cons.IH[OF this] True Inr i show ?thesis
        unfolding m[symmetric] by (simp del: fun_upd_apply)
    qed
  next
    case False
    obtain pr st' where p:
      "promptForIdentitySegment seg (resolvedSibling sels0) (lookupOpt md (seg_id seg))
         (lookupOpt defaults (seg_id seg)) st = (pr, st')"
      by (cases "promptForIdentitySegment seg (resolvedSibling sels0) (lookupOpt md (seg_id seg))
         (lookupOpt defaults (seg_id seg)) st")
    show ?thesis
    proof (cases pr)
      case (Inl e)
      with Cons.prems False p show ?thesis by simp
    next
      case (Inr s)
      with p have i: "sel_id s = seg_id seg" by (auto dest: segment_prompt_id)
      then have m: "(resolvedSibling sels0)(seg_id seg \<mapsto> s) = resolvedSibling (sels0 @ [s])"
        by (simp only: resolvedSibling_snoc)
      from Cons.prems False p Inr
      have "promptLoop rest provided md defaults (sels0 @ [s]) (resolvedSibling (sels0 @ [s])) st' =
              (Inr sels, st1)"
        unfolding m[symmetric] by (simp del: fun_upd_apply)
      from Cons.IH[OF this] False p Inr i show ?thesis
        unfolding m[symmetric] by (simp del: fun_upd_apply)
    qed
  qed
qed

lemma segments_prefix_run:
  assumes "promptForIdentitySegments pre provided md defaults st = (Inr resolved, st1)"
  shows "map sel_id (segments resolved) = map seg_id pre"
    and "snd (snd (promptForIdentitySegments (pre @ post) provided md defaults st)) =
         snd (snd (promptLoop post provided md defaults (segments resolved)
                     (resolvedSibling (segments resolved)) st1))"
proof -
  from assms obtain sels where
    l: "promptLoop pre provided md defaults [] (resolvedSibling []) st = (Inr sels, st1)"
    and r: "segments resolved = sels"
    unfolding promptForIdentitySegments_def resolvedSibling_Nil
    by (auto split: prod.splits sum.splits)
  from promptLoop_append[OF l, of post] r
  show "map sel_id (segments resolved) = map seg_id pre" by simp
  from promptLoop_append[OF l, of post] r
  show "snd (snd (promptForIdentitySegments (pre @ post) provided md defaults st)) =
         snd (snd (promptLoop post provided md defaults (segments resolved)
                     (resolvedSibling (segments resolved)) st1))"
    unfolding promptForIdentitySegments_def resolvedSibling_Nil
    by (auto split: prod.splits sum.splits)
qed





end
